theory Spec2Isabelle
  imports Complex_Main "HOL-Library.AList" "HOL-Library.Sublist"
begin

section \<open>The remote browser server (src/server.js) as an event-driven state machine\<close>

text \<open>
  The server is one Node.js process: a single event loop runs the connection handler, the
  message and close handlers of every WebSocket, the timer callbacks and the periodic sweep.
  The model is a record \<open>world\<close> of everything those callbacks read and write, and one
  function per callback. A callback that awaits a Playwright call is split at the await: the
  result of the awaited call (a screenshot, an error message, success or failure of a
  navigation) is an input of the model, supplied by the event that resumes the callback.

  Playwright (browsers, contexts, pages), the WebSocket library, the MD5 digest and the clock
  are outside the repository. Their objects are numbers (fresh ones are drawn from
  \<open>nextRes\<close>), \<open>page.isClosed()\<close> is the membership of the page in \<open>closedPages\<close> (changed
  only by the environment event \<open>PageClosed\<close>), the calls the server makes on them are
  recorded (\<open>closedContexts\<close>, \<open>closedBrowsers\<close>, \<open>pageCalls\<close>, \<open>sent\<close>), the digest is a
  parameter \<open>md5\<close>, and \<open>Date.now()\<close> is the field \<open>now\<close>, which only moves forward.
\<close>

subsection \<open>Configuration (lines 13-34, with the defaults of the source)\<close>

definition INTERACTION_FRAME_DELAY_MS :: int where "INTERACTION_FRAME_DELAY_MS = 50"
definition POST_EVENT_EXTRA_DELAY_MS :: int where "POST_EVENT_EXTRA_DELAY_MS = 1500"
definition NAV_FRAME_DELAY_MS :: int where "NAV_FRAME_DELAY_MS = 300"
definition MIN_SCROLL_FRAME_INTERVAL_MS :: int where "MIN_SCROLL_FRAME_INTERVAL_MS = 120"
definition SESSION_REMOVAL_DELAY_MS :: int where "SESSION_REMOVAL_DELAY_MS = 30000"
definition INITIAL_FRAME_DELAY_MS :: int where "INITIAL_FRAME_DELAY_MS = 100"
definition TIMEOUT_LOG_COOLDOWN_MS :: int where "TIMEOUT_LOG_COOLDOWN_MS = 3000"

subsection \<open>Data\<close>

type_synonym bytes = "nat list"

datatype ready_state = CONNECTING | OPEN | CLOSING | CLOSED

text \<open>An entry of \<open>activeSessions\<close>: \<open>{ page, context, browser }\<close> (line 294).\<close>

record session =
  pageOf :: nat
  contextOf :: nat
  browserOf :: nat

text \<open>
  The closures handed to \<open>setTimeout\<close>, one constructor per place of the source:
  line 125 (replay of a deferred capture), 134-135, 139-140, 149 (live scroll frame),
  154 (settle timer), 220 (removal after the grace period), 255-256 and 301-302.
\<close>

datatype action =
    Replay nat
  | EventFrame nat
  | NavFrame nat bool
  | ScrollLive nat
  | ScrollSettle nat
  | RemoveSession string
  | InitFrame nat bool

datatype tstatus = Pending | Fired | Cleared

text \<open>A timer handle is the position of the timer in \<open>timers\<close>.\<close>

record timer =
  t_owner :: nat
  t_created :: int
  t_due :: int
  t_action :: action
  t_status :: tstatus

text \<open>A call of \<open>page.screenshot\<close> that has been started; \<open>cap_running\<close> until it settles.\<close>

record capture =
  cap_conn :: nat
  cap_page :: nat
  cap_force :: bool
  cap_running :: bool

datatype outcome = Shot bytes | Failed string

datatype page_call =
    MouseClick int int string
  | MouseWheel rat rat
  | KeyPress string
  | KeyType string
  | PageReload
  | GoBack
  | GoForward
  | Goto string

datatype command =
    Click int int "string option"
  | Scroll rat rat
  | Key "string option" "string option"
  | Reload
  | Back
  | Forward
  | Unknown
  | Malformed

text \<open>
  The variables of one run of the connection handler (lines 65-75), the socket's
  \<open>readyState\<close>, the frames passed to \<open>ws.send\<close>, and the page bound by
  \<open>setupInteractionHandler\<close> (\<open>None\<close> until the handlers are installed).
\<close>

record conn =
  sessionKey :: string
  lastScreenshotHash :: "string option"
  isCapturing :: bool
  pendingCapture :: bool
  lastTimeoutLogTs :: int
  lastScrollFrameTs :: int
  scrollSettleTimer :: "nat option"
  readyState :: ready_state
  sent :: "bytes list"
  boundPage :: "nat option"

record world =
  now :: int
  userBrowsers :: "(string \<times> nat) list"
  activeSessions :: "(string \<times> session) list"
  conns :: "nat \<Rightarrow> conn"
  nextConn :: nat
  timers :: "timer list"
  captures :: "capture list"
  closedPages :: "nat list"
  closedContexts :: "nat list"
  closedBrowsers :: "nat list"
  pageCalls :: "(nat \<times> page_call) list"
  nextRes :: nat
  logs :: "string list"

definition newConn :: conn where
  "newConn = \<lparr> sessionKey = [], lastScreenshotHash = None, isCapturing = False,
      pendingCapture = False, lastTimeoutLogTs = 0, lastScrollFrameTs = 0,
      scrollSettleTimer = None, readyState = OPEN, sent = [], boundPage = None \<rparr>"

definition init_world :: "int \<Rightarrow> world" where
  "init_world t0 = \<lparr> now = t0, userBrowsers = [], activeSessions = [], conns = (\<lambda>_. newConn),
      nextConn = 0, timers = [], captures = [], closedPages = [], closedContexts = [],
      closedBrowsers = [], pageCalls = [], nextRes = 0, logs = [] \<rparr>"

subsection \<open>Primitives\<close>

definition updConn :: "nat \<Rightarrow> (conn \<Rightarrow> conn) \<Rightarrow> world \<Rightarrow> world" where
  "updConn c f w = w\<lparr>conns := (conns w)(c := f (conns w c))\<rparr>"

definition setTimeout :: "nat \<Rightarrow> action \<Rightarrow> int \<Rightarrow> world \<Rightarrow> world" where
  "setTimeout c a delay w =
     w\<lparr>timers := timers w @ [\<lparr> t_owner = c, t_created = now w, t_due = now w + delay,
                               t_action = a, t_status = Pending \<rparr>]\<rparr>"

definition clearTimeout :: "nat \<Rightarrow> world \<Rightarrow> world" where
  "clearTimeout i w =
     (if i < length (timers w) \<and> t_status (timers w ! i) = Pending
      then w\<lparr>timers := (timers w)[i := (timers w ! i)\<lparr>t_status := Cleared\<rparr>]\<rparr>
      else w)"

definition pageIsClosed :: "world \<Rightarrow> nat \<Rightarrow> bool" where
  "pageIsClosed w pg = (pg \<in> set (closedPages w))"

definition consoleLog :: "string \<Rightarrow> world \<Rightarrow> world" where
  "consoleLog s w = w\<lparr>logs := logs w @ [s]\<rparr>"

text \<open>\<open>String.prototype.includes\<close>: the pattern occurs as a contiguous substring.\<close>

fun str_includes :: "string \<Rightarrow> string \<Rightarrow> bool" where
  "str_includes [] p = (p = [])"
| "str_includes (x # xs) p = (prefix p (x # xs) \<or> str_includes xs p)"

subsection \<open>sendFrame (lines 78-130)\<close>

text \<open>
  The \<open>finally\<close> block (lines 121-129). JavaScript runs it on every exit of the \<open>try\<close>: the
  two early \<open>return\<close>s (lines 80 and 84), the \<open>return\<close> of the deduplication (line 98), the
  normal end, and after the \<open>catch\<close>.
\<close>

definition sendFrame_finally :: "nat \<Rightarrow> nat \<Rightarrow> world \<Rightarrow> world" where
  "sendFrame_finally c pg w =
     (let w1 = updConn c (\<lambda>k. k\<lparr>isCapturing := False\<rparr>) w in
      if pendingCapture (conns w1 c) \<and> \<not> pageIsClosed w1 pg
      then setTimeout c (Replay pg) INTERACTION_FRAME_DELAY_MS
             (updConn c (\<lambda>k. k\<lparr>pendingCapture := False\<rparr>) w1)
      else w1)"

text \<open>The call up to the \<open>await\<close> of line 88 (callers never pass a null page).\<close>

definition sendFrame :: "nat \<Rightarrow> nat \<Rightarrow> bool \<Rightarrow> world \<Rightarrow> world" where
  "sendFrame c pg force w =
     (if pageIsClosed w pg then sendFrame_finally c pg w
      else if isCapturing (conns w c)
      then sendFrame_finally c pg (updConn c (\<lambda>k. k\<lparr>pendingCapture := True\<rparr>) w)
      else (let w1 = updConn c (\<lambda>k. k\<lparr>isCapturing := True\<rparr>) w in
            w1\<lparr>captures := captures w1 @
                 [\<lparr> cap_conn = c, cap_page = pg, cap_force = force, cap_running = True \<rparr>]\<rparr>))"

text \<open>The \<open>catch\<close> block (lines 105-120); the argument is the error's message.\<close>

definition sendFrame_catch :: "nat \<Rightarrow> string \<Rightarrow> world \<Rightarrow> world" where
  "sendFrame_catch c msg w =
     (let key = sessionKey (conns w c) in
      if str_includes msg ''Target closed'' \<or> str_includes msg ''closed'' then
        (if key \<noteq> [] \<and> map_of (activeSessions w) key \<noteq> None
         then w\<lparr>activeSessions := AList.delete key (activeSessions w)\<rparr>
         else w)
      else if str_includes msg ''Timeout'' \<and> str_includes msg ''page.screenshot'' then
        (if now w - lastTimeoutLogTs (conns w c) > TIMEOUT_LOG_COOLDOWN_MS
         then updConn c (\<lambda>k. k\<lparr>lastTimeoutLogTs := now w\<rparr>)
                (consoleLog (''Timeout en sendFrame (screenshot): '' @ msg) w)
         else w)
      else consoleLog (''Error en sendFrame: '' @ msg) w)"

text \<open>The rest of the call, from the moment the screenshot settles (lines 95-104, then
  the \<open>catch\<close> and the \<open>finally\<close>).\<close>

definition sendFrame_resume ::
  "(bytes \<Rightarrow> string) \<Rightarrow> nat \<Rightarrow> nat \<Rightarrow> bool \<Rightarrow> outcome \<Rightarrow> world \<Rightarrow> world" where
  "sendFrame_resume md5 c pg force out w =
     (case out of
        Shot screenshot \<Rightarrow>
          (let hash = md5 screenshot in
           if \<not> force \<and> Some hash = lastScreenshotHash (conns w c)
           then sendFrame_finally c pg w
           else (let w1 = updConn c (\<lambda>k. k\<lparr>lastScreenshotHash := Some hash\<rparr>) w;
                     w2 = (if readyState (conns w1 c) = OPEN
                           then updConn c (\<lambda>k. k\<lparr>sent := sent k @ [screenshot]\<rparr>) w1
                           else w1)
                 in sendFrame_finally c pg w2))
      | Failed msg \<Rightarrow> sendFrame_finally c pg (sendFrame_catch c msg w))"

subsection \<open>Frame schedules (lines 133-158)\<close>

definition scheduleEventFrames :: "nat \<Rightarrow> nat \<Rightarrow> int \<Rightarrow> world \<Rightarrow> world" where
  "scheduleEventFrames c pg immediateDelay w =
     setTimeout c (EventFrame pg) POST_EVENT_EXTRA_DELAY_MS
       (setTimeout c (EventFrame pg) immediateDelay w)"

definition scheduleNavFrames :: "nat \<Rightarrow> nat \<Rightarrow> bool \<Rightarrow> world \<Rightarrow> world" where
  "scheduleNavFrames c pg forceFirst w =
     setTimeout c (NavFrame pg False) POST_EVENT_EXTRA_DELAY_MS
       (setTimeout c (NavFrame pg forceFirst) NAV_FRAME_DELAY_MS w)"

definition scheduleScrollFrames :: "nat \<Rightarrow> nat \<Rightarrow> world \<Rightarrow> world" where
  "scheduleScrollFrames c pg w =
     (let w1 = (if now w - lastScrollFrameTs (conns w c) > MIN_SCROLL_FRAME_INTERVAL_MS
                then setTimeout c (ScrollLive pg) INTERACTION_FRAME_DELAY_MS
                       (updConn c (\<lambda>k. k\<lparr>lastScrollFrameTs := now w\<rparr>) w)
                else w);
          w2 = (case scrollSettleTimer (conns w1 c) of
                  Some i \<Rightarrow> clearTimeout i w1
                | None \<Rightarrow> w1)
      in updConn c (\<lambda>k. k\<lparr>scrollSettleTimer := Some (length (timers w2))\<rparr>)
           (setTimeout c (ScrollSettle pg) POST_EVENT_EXTRA_DELAY_MS w2))"

subsection \<open>setupInteractionHandler (lines 160-230)\<close>

definition pageCall :: "nat \<Rightarrow> page_call \<Rightarrow> world \<Rightarrow> world" where
  "pageCall pg a w = w\<lparr>pageCalls := pageCalls w @ [(pg, a)]\<rparr>"

text \<open>A JavaScript \<open>x || d\<close> on a string that may be missing: the empty string is falsy.\<close>

definition orDefault :: "string option \<Rightarrow> string \<Rightarrow> string" where
  "orDefault x d = (case x of None \<Rightarrow> d | Some s \<Rightarrow> if s = [] then d else s)"

text \<open>
  The message handler. \<open>Malformed\<close> is a message on which \<open>JSON.parse\<close> or the read of
  \<open>data.type\<close> throws, \<open>Unknown\<close> one whose type matches no case. \<open>ok\<close> tells whether the
  awaited page call resolves; when it throws, the \<open>catch\<close> of line 207 logs and nothing is
  scheduled. The handler is taken at the moment the awaited call settles.
\<close>

definition interactionError :: "world \<Rightarrow> world" where
  "interactionError w = consoleLog ''Error interaccion'' w"

definition onMessage :: "nat \<Rightarrow> nat \<Rightarrow> command \<Rightarrow> bool \<Rightarrow> world \<Rightarrow> world" where
  "onMessage c pg cmd ok w =
     (if pageIsClosed w pg then w
      else case cmd of
        Malformed \<Rightarrow> interactionError w
      | Unknown \<Rightarrow> w
      | Click x y button \<Rightarrow>
          (let w1 = pageCall pg (MouseClick x y (orDefault button ''left'')) w in
           if ok then scheduleEventFrames c pg INTERACTION_FRAME_DELAY_MS w1
           else interactionError w1)
      | Scroll deltaX deltaY \<Rightarrow>
          (let w1 = pageCall pg (MouseWheel (deltaX * (3 / 2)) (deltaY * (3 / 2))) w in
           if ok then scheduleScrollFrames c pg w1 else interactionError w1)
      | Key k t \<Rightarrow>
          (if orDefault k [] \<noteq> [] then
             (let w1 = pageCall pg (KeyPress (orDefault k [])) w in
              if ok then scheduleEventFrames c pg INTERACTION_FRAME_DELAY_MS w1
              else interactionError w1)
           else if orDefault t [] \<noteq> [] then
             (let w1 = pageCall pg (KeyType (orDefault t [])) w in
              if ok then scheduleEventFrames c pg INTERACTION_FRAME_DELAY_MS w1
              else interactionError w1)
           else scheduleEventFrames c pg INTERACTION_FRAME_DELAY_MS w)
      | Reload \<Rightarrow>
          (let w1 = pageCall pg PageReload w in
           if ok then scheduleNavFrames c pg True w1 else interactionError w1)
      | Back \<Rightarrow>
          (let w1 = pageCall pg GoBack w in
           if ok then scheduleNavFrames c pg True w1 else interactionError w1)
      | Forward \<Rightarrow>
          (let w1 = pageCall pg GoForward w in
           if ok then scheduleNavFrames c pg True w1 else interactionError w1))"

text \<open>The close handler (lines 212-229).\<close>

definition onClose :: "nat \<Rightarrow> string \<Rightarrow> world \<Rightarrow> world" where
  "onClose c sKey w =
     (let w1 = consoleLog (sKey @ '' desconectado'') w;
          w2 = (case scrollSettleTimer (conns w1 c) of
                  Some i \<Rightarrow> updConn c (\<lambda>k. k\<lparr>scrollSettleTimer := None\<rparr>) (clearTimeout i w1)
                | None \<Rightarrow> w1)
      in setTimeout c (RemoveSession sKey) SESSION_REMOVAL_DELAY_MS w2)"

text \<open>The callback of the timer set at line 220; errors of \<open>context.close()\<close> are
  swallowed (line 225).\<close>

definition removeSession :: "string \<Rightarrow> world \<Rightarrow> world" where
  "removeSession sKey w =
     (case map_of (activeSessions w) sKey of
        Some s \<Rightarrow> w\<lparr>activeSessions := AList.delete sKey (activeSessions w),
                    closedContexts := closedContexts w @ [contextOf s]\<rparr>
      | None \<Rightarrow> w)"

text \<open>What each timer runs when it fires.\<close>

definition timerCallback :: "nat \<Rightarrow> action \<Rightarrow> world \<Rightarrow> world" where
  "timerCallback c a w =
     (case a of
        Replay pg \<Rightarrow> sendFrame c pg False w
      | EventFrame pg \<Rightarrow> sendFrame c pg False w
      | NavFrame pg force \<Rightarrow> sendFrame c pg force w
      | ScrollLive pg \<Rightarrow> sendFrame c pg False w
      | ScrollSettle pg \<Rightarrow>
          sendFrame c pg False (updConn c (\<lambda>k. k\<lparr>lastScrollFrameTs := now w\<rparr>) w)
      | RemoveSession sKey \<Rightarrow> removeSession sKey w
      | InitFrame pg force \<Rightarrow> sendFrame c pg force w)"

subsection \<open>The connection handler (lines 62-311)\<close>

text \<open>Decimal notation of \<open>Date.now()\<close>, for the generated ids of lines 237-238.\<close>

function decimal :: "nat \<Rightarrow> string" where
  "decimal n = (if n < 10 then [char_of (48 + n)]
                else decimal (n div 10) @ [char_of (48 + n mod 10)])"
  by pat_completeness auto
termination
  by (relation "measure (\<lambda>n. n)") auto

definition showInt :: "int \<Rightarrow> string" where
  "showInt i = (if i < 0 then CHR ''-'' # decimal (nat (- i)) else decimal (nat i))"

text \<open>
  The query parameters of the request, and what happens during the awaited calls of the
  creation path: \<open>url_ok\<close> is false when \<open>new URL\<close> throws, each other \<open>_ok\<close> flag is false
  when that call throws, and \<open>client_gone\<close> is true when the client closes the socket while
  the handler is waiting.
\<close>

record request =
  url_ok :: bool
  userIdParam :: "string option"
  sessionIdParam :: "string option"
  urlParam :: "string option"
  launch_ok :: bool
  newContext_ok :: bool
  newPage_ok :: bool
  viewport_ok :: bool
  goto_ok :: bool
  title_ok :: bool
  blank_ok :: bool
  client_gone :: bool

text \<open>The outer \<open>catch\<close> (lines 305-310): \<open>ws.close()\<close> starts the closing handshake.\<close>

definition critical :: "nat \<Rightarrow> world \<Rightarrow> world" where
  "critical c w =
     (let w1 = consoleLog ''Error critico'' w in
      if readyState (conns w1 c) = OPEN
      then updConn c (\<lambda>k. k\<lparr>readyState := CLOSING\<rparr>) w1
      else w1)"

text \<open>Lines 251-258 and 297-304, the same in both paths: the scheduler variables are reset,
  two initial frames are scheduled and the handlers are installed.\<close>

definition attach :: "nat \<Rightarrow> nat \<Rightarrow> world \<Rightarrow> world" where
  "attach c pg w =
     (let w1 = updConn c (\<lambda>k. k\<lparr>lastScreenshotHash := None, lastScrollFrameTs := 0,
                                 scrollSettleTimer := None\<rparr>) w;
          w2 = setTimeout c (InitFrame pg True) INITIAL_FRAME_DELAY_MS w1;
          w3 = setTimeout c (InitFrame pg False) POST_EVENT_EXTRA_DELAY_MS w2
      in updConn c (\<lambda>k. k\<lparr>boundPage := Some pg\<rparr>) w3)"

text \<open>Lines 263-273: the user's browser, launched when the pool has none. \<open>None\<close> when
  \<open>chromium.launch\<close> throws.\<close>

definition acquireBrowser :: "string \<Rightarrow> request \<Rightarrow> world \<Rightarrow> nat option \<times> world" where
  "acquireBrowser userId rq w =
     (case map_of (userBrowsers w) userId of
        None \<Rightarrow>
          (let w1 = consoleLog (''Nuevo navegador para '' @ userId) w in
           if launch_ok rq
           then (let b = nextRes w1 in
                 (Some b, w1\<lparr>nextRes := Suc b,
                              userBrowsers := AList.update userId b (userBrowsers w1)\<rparr>))
           else (None, w1))
      | Some b \<Rightarrow> (Some b, w))"

text \<open>Lines 282-292: the initial navigation with its fallback. The flag is false when the
  fallback \<open>page.goto('about:blank')\<close> throws, which leaves the inner \<open>catch\<close> for the outer
  one. The inner \<open>try\<close> also covers \<open>page.title()\<close> (line 288).\<close>

definition navigate :: "nat \<Rightarrow> string \<Rightarrow> request \<Rightarrow> world \<Rightarrow> bool \<times> world" where
  "navigate pg targetUrl rq w =
     (let w1 = pageCall pg (Goto targetUrl) (consoleLog (''Navegando a '' @ targetUrl) w) in
      if goto_ok rq \<and> title_ok rq then (True, consoleLog ''Pagina cargada'' w1)
      else (blank_ok rq, pageCall pg (Goto ''about:blank'') (consoleLog ''Error navegacion'' w1)))"

text \<open>Lines 294-304, after the last await of the creation path: the Session is
  registered, and the connection is bound to its page.\<close>

definition registerSession :: "nat \<Rightarrow> string \<Rightarrow> session \<Rightarrow> world \<Rightarrow> world" where
  "registerSession c key s w =
     attach c (pageOf s)
       (consoleLog (key @ '' listo'')
          (w\<lparr>activeSessions := AList.update key s (activeSessions w)\<rparr>))"

text \<open>Lines 263-304, every awaited call with its result.\<close>

definition setupSession ::
  "nat \<Rightarrow> string \<Rightarrow> string \<Rightarrow> string \<Rightarrow> request \<Rightarrow> world \<Rightarrow> world" where
  "setupSession c userId key targetUrl rq w =
     (case acquireBrowser userId rq w of
        (None, w1) \<Rightarrow> critical c w1
      | (Some b, w1) \<Rightarrow>
          if \<not> newContext_ok rq then critical c w1 else
          (let ctx = nextRes w1; w2 = w1\<lparr>nextRes := Suc ctx\<rparr> in
           if \<not> newPage_ok rq then critical c w2 else
           (let pg = nextRes w2; w3 = w2\<lparr>nextRes := Suc pg\<rparr> in
            if \<not> viewport_ok rq then critical c w3 else
            (case navigate pg targetUrl rq w3 of
               (False, w4) \<Rightarrow> critical c w4
             | (True, w4) \<Rightarrow>
                 registerSession c key \<lparr> pageOf = pg, contextOf = ctx, browserOf = b \<rparr> w4))))"

text \<open>
  The socket during the awaits. The creation path starts with an await (the launch, or
  \<open>newContext\<close>) and the listeners of the socket are attached at its very end (line 304), so
  a client that closes the socket meanwhile is not noticed: the close event finds no
  listener, and \<open>ws.readyState\<close> is \<open>CLOSED\<close> when the handler reads it next (line 307, or
  line 102 later).
\<close>

definition clientMayLeave :: "nat \<Rightarrow> request \<Rightarrow> world \<Rightarrow> world" where
  "clientMayLeave c rq w =
     (if client_gone rq then updConn c (\<lambda>k. k\<lparr>readyState := CLOSED\<rparr>) w else w)"

text \<open>
  The creation path as one step of the event loop. What other handlers do during its awaits
  is not part of the step; \<open>registerSession\<close>, \<open>critical\<close> and \<open>navigate\<close> are the code that
  runs after an await, in whatever state the server is then.
\<close>

definition createSession ::
  "nat \<Rightarrow> string \<Rightarrow> string \<Rightarrow> string \<Rightarrow> request \<Rightarrow> world \<Rightarrow> world" where
  "createSession c userId key targetUrl rq w =
     setupSession c userId key targetUrl rq (clientMayLeave c rq w)"

text \<open>Lines 237-243; \<open>t\<close> is the value of \<open>Date.now()\<close>.\<close>

definition userIdOf :: "request \<Rightarrow> int \<Rightarrow> string" where
  "userIdOf rq t = orDefault (userIdParam rq) (''user_'' @ showInt t)"

definition sessionIdOf :: "request \<Rightarrow> int \<Rightarrow> string" where
  "sessionIdOf rq t = orDefault (sessionIdParam rq) (''session_'' @ showInt t)"

definition targetUrlOf :: "request \<Rightarrow> string" where
  "targetUrlOf rq = orDefault (urlParam rq) ''https://es.wikipedia.org''"

definition sessionKeyOf :: "request \<Rightarrow> int \<Rightarrow> string" where
  "sessionKeyOf rq t = userIdOf rq t @ ''_'' @ sessionIdOf rq t"

text \<open>The handler itself: a new connection gets the next number and fresh variables.\<close>

definition onConnection :: "request \<Rightarrow> world \<Rightarrow> world" where
  "onConnection rq w0 =
     (let c = nextConn w0;
          w = consoleLog ''Nueva conexion WebSocket''
                (w0\<lparr>conns := (conns w0)(c := newConn), nextConn := Suc c\<rparr>)
      in if \<not> url_ok rq then critical c w
         else
          (let userId = userIdOf rq (now w);
               sessionId = sessionIdOf rq (now w);
               targetUrl = targetUrlOf rq;
               key = sessionKeyOf rq (now w);
               w1 = updConn c (\<lambda>k. k\<lparr>sessionKey := key\<rparr>)
                      (consoleLog (userId @ ''/'' @ sessionId @ '' -> '' @ targetUrl) w)
           in case map_of (activeSessions w1) key of
                None \<Rightarrow> createSession c userId key targetUrl rq w1
              | Some s \<Rightarrow>
                  if \<not> pageIsClosed w1 (pageOf s)
                  then attach c (pageOf s)
                         (consoleLog (''Reutilizando sesion existente: '' @ key) w1)
                  else createSession c userId key targetUrl rq w1))"

subsection \<open>The sweep (lines 314-329)\<close>

text \<open>
  \<open>closeErr b\<close> is the message of the error \<open>browser.close()\<close> throws on browser \<open>b\<close>, \<open>None\<close>
  when it resolves. The loop runs over the entries of \<open>userBrowsers\<close> in insertion order.
  The pass is taken as one step: nothing else runs during its awaits.
\<close>

definition stillUsed :: "world \<Rightarrow> nat \<Rightarrow> bool" where
  "stillUsed w b = list_ex (\<lambda>s. browserOf s = b) (map snd (activeSessions w))"

text \<open>Lines 320-326, for a browser no session refers to: it is closed, an error of the
  close is logged, and the entry is deleted from the pool in both cases.\<close>

definition closeUnused :: "(nat \<Rightarrow> string option) \<Rightarrow> string \<Rightarrow> nat \<Rightarrow> world \<Rightarrow> world" where
  "closeUnused closeErr userId b w =
     (let w1 = consoleLog (''Cerrando navegador sin sesiones para userId='' @ userId) w;
          w2 = w1\<lparr>closedBrowsers := closedBrowsers w1 @ [b]\<rparr>;
          w3 = (case closeErr b of
                  None \<Rightarrow> w2
                | Some m \<Rightarrow>
                    consoleLog (''Error al cerrar browser de '' @ userId @ '': '' @ m) w2)
      in w3\<lparr>userBrowsers := AList.delete userId (userBrowsers w3)\<rparr>)"

fun sweepLoop :: "(nat \<Rightarrow> string option) \<Rightarrow> (string \<times> nat) list \<Rightarrow> world \<Rightarrow> world" where
  "sweepLoop closeErr [] w = w"
| "sweepLoop closeErr ((userId, b) # rest) w =
     (if \<not> stillUsed w b
      then sweepLoop closeErr rest (closeUnused closeErr userId b w)
      else sweepLoop closeErr rest w)"

definition sweep :: "(nat \<Rightarrow> string option) \<Rightarrow> world \<Rightarrow> world" where
  "sweep closeErr w = sweepLoop closeErr (userBrowsers w) (consoleLog ''Sweep'' w)"

subsection \<open>The event loop\<close>

text \<open>
  What can happen next: time passes, a client connects, a message arrives on a connection
  (with the result of the page call it triggers), a connection closes, a due timer fires,
  a screenshot in flight settles, a page gets closed, the sweep runs.
\<close>

datatype event =
    Advance nat
  | Connect request
  | Message nat command bool
  | Close nat
  | Fire nat
  | CaptureDone nat outcome
  | PageClosed nat
  | Sweep "nat \<Rightarrow> string option"

fun step :: "(bytes \<Rightarrow> string) \<Rightarrow> event \<Rightarrow> world \<Rightarrow> world" where
  "step md5 (Advance d) w = w\<lparr>now := now w + int d\<rparr>"
| "step md5 (Connect rq) w = onConnection rq w"
| "step md5 (Message c cmd ok) w =
     (if c < nextConn w \<and> readyState (conns w c) = OPEN
      then (case boundPage (conns w c) of
              Some pg \<Rightarrow> onMessage c pg cmd ok w
            | None \<Rightarrow> w)
      else w)"
| "step md5 (Close c) w =
     (if c < nextConn w \<and> readyState (conns w c) \<noteq> CLOSED
      then (let w1 = updConn c (\<lambda>k. k\<lparr>readyState := CLOSED\<rparr>) w in
            case boundPage (conns w1 c) of
              Some pg \<Rightarrow> onClose c (sessionKey (conns w1 c)) w1
            | None \<Rightarrow> w1)
      else w)"
| "step md5 (Fire i) w =
     (if i < length (timers w) \<and> t_status (timers w ! i) = Pending
         \<and> t_due (timers w ! i) \<le> now w
      then timerCallback (t_owner (timers w ! i)) (t_action (timers w ! i))
             (w\<lparr>timers := (timers w)[i := (timers w ! i)\<lparr>t_status := Fired\<rparr>]\<rparr>)
      else w)"
| "step md5 (CaptureDone i out) w =
     (if i < length (captures w) \<and> cap_running (captures w ! i)
      then sendFrame_resume md5 (cap_conn (captures w ! i)) (cap_page (captures w ! i))
             (cap_force (captures w ! i)) out
             (w\<lparr>captures := (captures w)[i := (captures w ! i)\<lparr>cap_running := False\<rparr>]\<rparr>)
      else w)"
| "step md5 (PageClosed pg) w = w\<lparr>closedPages := pg # closedPages w\<rparr>"
| "step md5 (Sweep closeErr) w = sweep closeErr w"

fun run :: "(bytes \<Rightarrow> string) \<Rightarrow> event list \<Rightarrow> world \<Rightarrow> world" where
  "run md5 [] w = w"
| "run md5 (e # es) w = run md5 es (step md5 e w)"

subsection \<open>Observations\<close>

text \<open>The event completes, with a frame, a screenshot started by connection \<open>c\<close>.\<close>

fun isShotFor :: "nat \<Rightarrow> event \<Rightarrow> world \<Rightarrow> bool" where
  "isShotFor c (CaptureDone i (Shot img)) w =
     (i < length (captures w) \<and> cap_running (captures w ! i) \<and> cap_conn (captures w ! i) = c)"
| "isShotFor c e w = False"

text \<open>No event of the list, run from \<open>w\<close>, completes a screenshot of \<open>c\<close> with a frame.\<close>

fun noShot :: "(bytes \<Rightarrow> string) \<Rightarrow> nat \<Rightarrow> event list \<Rightarrow> world \<Rightarrow> bool" where
  "noShot md5 c [] w = True"
| "noShot md5 c (e # es) w = (\<not> isShotFor c e w \<and> noShot md5 c es (step md5 e w))"

text \<open>What the deduplication of connection \<open>c\<close> depends on and produces: the stored hash
  and the frames sent so far.\<close>

definition dedupState :: "world \<Rightarrow> nat \<Rightarrow> string option \<times> bytes list" where
  "dedupState w c = (lastScreenshotHash (conns w c), sent (conns w c))"

subsection \<open>Scroll timers\<close>

fun isLive :: "action \<Rightarrow> bool" where
  "isLive (ScrollLive pg) = True"
| "isLive a = False"

fun isSettle :: "action \<Rightarrow> bool" where
  "isSettle (ScrollSettle pg) = True"
| "isSettle a = False"

text \<open>The times at which connection \<open>c\<close> has scheduled a live scroll frame (line 149), in
  order, and the settle timers of \<open>c\<close> that are pending.\<close>

definition liveTimes :: "nat \<Rightarrow> world \<Rightarrow> int list" where
  "liveTimes c w = map t_created (filter (\<lambda>t. t_owner t = c \<and> isLive (t_action t)) (timers w))"

definition pendingSettle :: "nat \<Rightarrow> world \<Rightarrow> timer list" where
  "pendingSettle c w =
     filter (\<lambda>t. t_owner t = c \<and> isSettle (t_action t) \<and> t_status t = Pending) (timers w)"

text \<open>Each time of the list is more than the minimum interval after the one before.\<close>

fun spaced :: "int list \<Rightarrow> bool" where
  "spaced [] = True"
| "spaced [x] = True"
| "spaced (x # y # xs) = (y - x > MIN_SCROLL_FRAME_INTERVAL_MS \<and> spaced (y # xs))"

text \<open>What holds of the live scroll frames in every state the server reaches: timers were
  created in the past; a live frame belongs to an accepted connection and was scheduled no
  later than that connection's \<open>lastScrollFrameTs\<close>; the live frames of a connection are
  spaced.\<close>

definition liveInv :: "world \<Rightarrow> bool" where
  "liveInv w =
     ((\<forall>t \<in> set (timers w). t_created t \<le> now w
          \<and> (isLive (t_action t) \<longrightarrow>
               t_owner t < nextConn w
               \<and> t_created t \<le> lastScrollFrameTs (conns w (t_owner t))))
      \<and> (\<forall>c. spaced (liveTimes c w)))"

text \<open>What holds of the settle timers: a settle timer belongs to an accepted connection, and
  while it is pending it is the one the connection's \<open>scrollSettleTimer\<close> refers to.\<close>

definition settleInv :: "world \<Rightarrow> bool" where
  "settleInv w =
     (\<forall>i < length (timers w). isSettle (t_action (timers w ! i)) \<longrightarrow>
        t_owner (timers w ! i) < nextConn w
        \<and> (t_status (timers w ! i) = Pending \<longrightarrow>
             scrollSettleTimer (conns w (t_owner (timers w ! i))) = Some i))"

text \<open>The handle a connection keeps in \<open>scrollSettleTimer\<close> is a timer of its own.\<close>

definition handleInv :: "world \<Rightarrow> bool" where
  "handleInv w =
     (\<forall>c j. scrollSettleTimer (conns w c) = Some j \<longrightarrow>
        j < length (timers w) \<and> t_owner (timers w ! j) = c)"




subsection \<open>Concrete inputs\<close>

text \<open>A client that connects with \<open>userId=u1\<close>, \<open>sessionId=s1\<close> and a target url, on a
  server where every Playwright call of the creation path succeeds.\<close>

definition request_u1_s1 :: request where
  "request_u1_s1 = \<lparr> url_ok = True, userIdParam = Some ''u1'', sessionIdParam = Some ''s1'',
     urlParam = Some ''https://example.test'', launch_ok = True, newContext_ok = True,
     newPage_ok = True, viewport_ok = True, goto_ok = True, title_ok = True, blank_ok = True,
     client_gone = False \<rparr>"

text \<open>A stand-in for the MD5 digest in the concrete runs (equal frames have equal digests
  under any digest), and a frame.\<close>

definition digest :: "bytes \<Rightarrow> string" where
  "digest b = concat (map decimal b)"

definition frameA :: bytes where
  "frameA = [255, 216, 255]"

text \<open>The client connects, disconnects after one second and reconnects one second later;
  29 more seconds pass, so that the removal scheduled at the disconnection is due.\<close>

definition reconnect_run :: "event list" where
  "reconnect_run = [Connect request_u1_s1, Advance 1000, Close 0, Advance 1000,
                    Connect request_u1_s1, Advance 29000]"

text \<open>The initial forced frame starts its screenshot at 100 ms; the client clicks, and the
  frame scheduled 50 ms after the click asks for a capture while that screenshot is still
  running.\<close>

definition deferred_run :: "event list" where
  "deferred_run = [Connect request_u1_s1, Advance 100, Fire 0,
                   Message 0 (Click 10 10 None) True, Advance 50, Fire 2]"

text \<open>The initial screenshot fails because the target is closed.\<close>

definition target_closed_run :: "event list" where
  "target_closed_run = [Connect request_u1_s1, Advance 100, Fire 0,
                        CaptureDone 0 (Failed ''page.screenshot: Target closed'')]"

text \<open>A second client, and a run for the sweep: both clients connect and disconnect;
  30 seconds later the removal timer of the second one has fired and that of the first one
  has not yet. Every \<open>browser.close()\<close> of the sweep throws.\<close>

definition request_u2_s2 :: request where
  "request_u2_s2 = \<lparr> url_ok = True, userIdParam = Some ''u2'', sessionIdParam = Some ''s2'',
     urlParam = None, launch_ok = True, newContext_ok = True,
     newPage_ok = True, viewport_ok = True, goto_ok = True, title_ok = True, blank_ok = True,
     client_gone = False \<rparr>"

definition sweep_run :: "event list" where
  "sweep_run = [Connect request_u1_s1, Connect request_u2_s2, Close 0, Close 1,
                Advance 30000, Fire 5]"

definition close_fails :: "nat \<Rightarrow> string option" where
  "close_fails b = Some ''boom''"

text \<open>The initial forced frame has started its screenshot; in the second run the client
  has disconnected before.\<close>

definition first_frame_run :: "event list" where
  "first_frame_run = [Connect request_u1_s1, Advance 100, Fire 0]"

definition closed_socket_run :: "event list" where
  "closed_socket_run = [Connect request_u1_s1, Close 0, Advance 100, Fire 0]"

text \<open>The scheduler variables of connection \<open>c\<close> have their initial values and nothing has
  been sent on it.\<close>

definition freshConn :: "world \<Rightarrow> nat \<Rightarrow> bool" where
  "freshConn w c = (lastScreenshotHash (conns w c) = None \<and> lastScrollFrameTs (conns w c) = 0
                    \<and> scrollSettleTimer (conns w c) = None \<and> sent (conns w c) = [])"

text \<open>The client clicks right after connecting, so that the first capture of the connection
  is the non-forced one scheduled 50 ms after the click; and a run in which the page does
  not change between the initial forced frame and the non-forced one that follows it.\<close>

definition early_click_run :: "event list" where
  "early_click_run = [Message 0 (Click 10 10 None) True, Advance 50, Fire 2]"

definition repeated_frame_run :: "event list" where
  "repeated_frame_run = [Connect request_u1_s1, Advance 100, Fire 0,
                         CaptureDone 0 (Shot frameA), Advance 1400, Fire 1]"

text \<open>The same client when the initial navigation fails, and when the fallback navigation
  to the blank page fails as well.\<close>

definition request_unreachable :: request where
  "request_unreachable = request_u1_s1\<lparr>goto_ok := False\<rparr>"

definition request_dead_page :: request where
  "request_dead_page = request_u1_s1\<lparr>goto_ok := False, blank_ok := False\<rparr>"

text \<open>The same client leaves while its session is being set up; and the server when the
  page of the session \<open>u1_s1\<close> has been closed, its entry still in the registry.\<close>

definition request_client_left :: request where
  "request_client_left = request_u1_s1\<lparr>goto_ok := False, client_gone := True\<rparr>"

definition stale_entry_run :: "event list" where
  "stale_entry_run = [Connect request_u1_s1, PageClosed 2]"

text \<open>Three wheel events, 60 ms and 70 ms apart, one second after the connection.\<close>

definition scroll_burst_run :: "event list" where
  "scroll_burst_run = [Connect request_u1_s1, Advance 1000, Message 0 (Scroll 0 100) True,
                       Advance 60, Message 0 (Scroll 0 100) True,
                       Advance 70, Message 0 (Scroll 0 100) True]"






section \<open>Properties\<close>

lemmas model_defs =
  onConnection_def createSession_def setupSession_def registerSession_def clientMayLeave_def
  acquireBrowser_def navigate_def attach_def critical_def
  userIdOf_def sessionIdOf_def targetUrlOf_def sessionKeyOf_def
  updConn_def setTimeout_def clearTimeout_def consoleLog_def pageCall_def pageIsClosed_def
  orDefault_def sendFrame_def sendFrame_finally_def sendFrame_resume_def sendFrame_catch_def
  timerCallback_def removeSession_def onClose_def onMessage_def interactionError_def
  scheduleEventFrames_def scheduleNavFrames_def scheduleScrollFrames_def
  INTERACTION_FRAME_DELAY_MS_def POST_EVENT_EXTRA_DELAY_MS_def NAV_FRAME_DELAY_MS_def
  MIN_SCROLL_FRAME_INTERVAL_MS_def SESSION_REMOVAL_DELAY_MS_def INITIAL_FRAME_DELAY_MS_def
  TIMEOUT_LOG_COOLDOWN_MS_def newConn_def init_world_def

lemmas input_defs = request_u1_s1_def digest_def frameA_def

subsection \<open>What each operation leaves unchanged\<close>

lemma ds_updConn:
  "(\<And>k. lastScreenshotHash (f k) = lastScreenshotHash k \<and> sent (f k) = sent k) \<Longrightarrow>
   dedupState (updConn c f w) c' = dedupState w c'"
  by (simp add: dedupState_def updConn_def)

lemma ds_updConn_other: "c' \<noteq> c \<Longrightarrow> dedupState (updConn c f w) c' = dedupState w c'"
  by (simp add: dedupState_def updConn_def)

lemma ds_prims [simp]:
  "dedupState (setTimeout c a d w) c' = dedupState w c'"
  "dedupState (clearTimeout i w) c' = dedupState w c'"
  "dedupState (consoleLog s w) c' = dedupState w c'"
  "dedupState (pageCall pg pc w) c' = dedupState w c'"
  by (simp_all add: dedupState_def setTimeout_def clearTimeout_def consoleLog_def pageCall_def)

lemma ds_fields [simp]:
  "dedupState (w\<lparr>now := a1\<rparr>) c' = dedupState w c'"
  "dedupState (w\<lparr>userBrowsers := a2\<rparr>) c' = dedupState w c'"
  "dedupState (w\<lparr>activeSessions := a3\<rparr>) c' = dedupState w c'"
  "dedupState (w\<lparr>nextConn := a4\<rparr>) c' = dedupState w c'"
  "dedupState (w\<lparr>timers := a5\<rparr>) c' = dedupState w c'"
  "dedupState (w\<lparr>captures := a6\<rparr>) c' = dedupState w c'"
  "dedupState (w\<lparr>closedPages := a7\<rparr>) c' = dedupState w c'"
  "dedupState (w\<lparr>closedContexts := a8\<rparr>) c' = dedupState w c'"
  "dedupState (w\<lparr>closedBrowsers := a9\<rparr>) c' = dedupState w c'"
  "dedupState (w\<lparr>nextRes := a10\<rparr>) c' = dedupState w c'"
  by (simp_all add: dedupState_def)

lemma ds_finally [simp]: "dedupState (sendFrame_finally c pg w) c' = dedupState w c'"
  by (simp add: sendFrame_finally_def Let_def ds_updConn)

lemma ds_sendFrame [simp]: "dedupState (sendFrame c pg f w) c' = dedupState w c'"
  by (simp add: sendFrame_def Let_def ds_updConn)

lemma ds_catch [simp]: "dedupState (sendFrame_catch c msg w) c' = dedupState w c'"
  by (simp add: sendFrame_catch_def Let_def ds_updConn)

lemma ds_resume_failed: "dedupState (sendFrame_resume md5 c pg f (Failed msg) w) c' = dedupState w c'"
  by (simp add: sendFrame_resume_def)

lemma ds_resume_other: "c' \<noteq> c \<Longrightarrow> dedupState (sendFrame_resume md5 c pg f out w) c' = dedupState w c'"
  by (cases out) (simp_all add: sendFrame_resume_def Let_def ds_updConn_other)

lemma ds_schedule [simp]:
  "dedupState (scheduleEventFrames c pg d w) c' = dedupState w c'"
  "dedupState (scheduleNavFrames c pg f w) c' = dedupState w c'"
  "dedupState (scheduleScrollFrames c pg w) c' = dedupState w c'"
  by (simp_all add: scheduleEventFrames_def scheduleNavFrames_def scheduleScrollFrames_def
        Let_def ds_updConn split: option.splits)

lemma ds_onMessage [simp]: "dedupState (onMessage c pg cmd ok w) c' = dedupState w c'"
  by (cases cmd) (simp_all add: onMessage_def interactionError_def Let_def)

lemma ds_onClose [simp]: "dedupState (onClose c k w) c' = dedupState w c'"
  by (simp add: onClose_def Let_def ds_updConn split: option.splits)

lemma ds_removeSession [simp]: "dedupState (removeSession k w) c' = dedupState w c'"
  by (simp add: removeSession_def split: option.splits)

lemma ds_timerCallback [simp]: "dedupState (timerCallback c a w) c' = dedupState w c'"
  by (cases a) (simp_all add: timerCallback_def ds_updConn)


lemma ds_critical: "c' \<noteq> c \<Longrightarrow> dedupState (critical c w) c' = dedupState w c'"
  by (simp add: critical_def Let_def ds_updConn_other)

lemma ds_attach: "c' \<noteq> c \<Longrightarrow> dedupState (attach c pg w) c' = dedupState w c'"
  by (simp add: attach_def Let_def ds_updConn_other)

lemma ds_acquireBrowser [simp]: "dedupState (snd (acquireBrowser u rq w)) c' = dedupState w c'"
  by (simp add: acquireBrowser_def Let_def split: option.splits)

lemma ds_navigate [simp]: "dedupState (snd (navigate pg url rq w)) c' = dedupState w c'"
  by (simp add: navigate_def Let_def)

lemma ds_setupSession:
  "c' \<noteq> c \<Longrightarrow> dedupState (setupSession c u key url rq w) c' = dedupState w c'"
proof -
  assume ne: "c' \<noteq> c"
  obtain b w1 where ab: "acquireBrowser u rq w = (b, w1)" by (cases "acquireBrowser u rq w")
  have w1: "dedupState w1 c' = dedupState w c'" using ds_acquireBrowser[of u rq w c'] ab by simp
  show ?thesis
  proof (cases b)
    case None
    then show ?thesis using ne w1 by (simp add: setupSession_def registerSession_def ab ds_critical)
  next
    case (Some br)
    obtain ok w4 where nav: "navigate (Suc (nextRes w1)) url rq (w1\<lparr>nextRes := Suc (Suc (nextRes w1))\<rparr>) = (ok, w4)"
      by (cases "navigate (Suc (nextRes w1)) url rq (w1\<lparr>nextRes := Suc (Suc (nextRes w1))\<rparr>)")
    have w4: "dedupState w4 c' = dedupState w1 c'"
      using ds_navigate[of "Suc (nextRes w1)" url rq "w1\<lparr>nextRes := Suc (Suc (nextRes w1))\<rparr>" c'] nav by simp
    show ?thesis using ne w1 w4 Some
      by (simp add: setupSession_def registerSession_def ab nav Let_def ds_critical ds_attach split: bool.splits)
  qed
qed

lemma ds_createSession:
  "c' \<noteq> c \<Longrightarrow> dedupState (createSession c u key url rq w) c' = dedupState w c'"
  by (simp add: createSession_def clientMayLeave_def ds_setupSession ds_updConn_other)

lemma ds_onConnection: "c' \<noteq> nextConn w \<Longrightarrow> dedupState (onConnection rq w) c' = dedupState w c'"
proof -
  assume ne: "c' \<noteq> nextConn w"
  have base: "\<And>x. dedupState (w\<lparr>conns := (conns w)(nextConn w := x)\<rparr>) c' = dedupState w c'"
    using ne by (simp add: dedupState_def)
  show ?thesis using ne
    by (simp add: onConnection_def Let_def ds_critical ds_attach ds_createSession ds_updConn_other base
             split: option.splits)
qed

lemma conns_sweepLoop [simp]: "conns (sweepLoop ce es w) = conns w"
  by (induction es arbitrary: w) (auto simp: closeUnused_def consoleLog_def Let_def split: option.splits)

lemma ds_sweep [simp]: "dedupState (sweep ce w) c' = dedupState w c'"
  by (simp add: dedupState_def sweep_def consoleLog_def)

lemma ds_step:
  "c < nextConn w \<Longrightarrow> \<not> isShotFor c e w \<Longrightarrow> dedupState (step md5 e w) c = dedupState w c"
proof (cases e)
  case (CaptureDone i out)
  assume "\<not> isShotFor c e w"
  then show ?thesis using CaptureDone
    by (cases out) (auto simp: ds_resume_failed ds_resume_other)
qed (simp_all add: ds_onConnection ds_updConn Let_def split: option.splits)


lemma nextConn_prims [simp]:
  "nextConn (updConn c f w) = nextConn w"
  "nextConn (setTimeout c a d w) = nextConn w"
  "nextConn (clearTimeout i w) = nextConn w"
  "nextConn (consoleLog s w) = nextConn w"
  "nextConn (pageCall pg pc w) = nextConn w"
  by (simp_all add: updConn_def setTimeout_def clearTimeout_def consoleLog_def pageCall_def)

lemma nextConn_sendFrame [simp]:
  "nextConn (sendFrame_finally c pg w) = nextConn w"
  "nextConn (sendFrame c pg f w) = nextConn w"
  "nextConn (sendFrame_catch c msg w) = nextConn w"
  "nextConn (sendFrame_resume md5 c pg f out w) = nextConn w"
  by (simp_all add: sendFrame_finally_def sendFrame_def sendFrame_catch_def sendFrame_resume_def
        Let_def split: outcome.splits)

lemma nextConn_schedule [simp]:
  "nextConn (scheduleEventFrames c pg d w) = nextConn w"
  "nextConn (scheduleNavFrames c pg f w) = nextConn w"
  "nextConn (scheduleScrollFrames c pg w) = nextConn w"
  by (simp_all add: scheduleEventFrames_def scheduleNavFrames_def scheduleScrollFrames_def
        Let_def split: option.splits)

lemma nextConn_handlers [simp]:
  "nextConn (onMessage c pg cmd ok w) = nextConn w"
  "nextConn (onClose c k w) = nextConn w"
  "nextConn (removeSession k w) = nextConn w"
  "nextConn (timerCallback c a w) = nextConn w"
  by (simp_all add: onMessage_def interactionError_def onClose_def removeSession_def
        timerCallback_def Let_def split: option.splits command.splits action.splits)

lemma nextConn_setup [simp]:
  "nextConn (critical c w) = nextConn w"
  "nextConn (attach c pg w) = nextConn w"
  "nextConn (snd (acquireBrowser u rq w)) = nextConn w"
  "nextConn (snd (navigate pg url rq w)) = nextConn w"
  by (simp_all add: critical_def attach_def acquireBrowser_def navigate_def Let_def
        split: option.splits)

lemma nextConn_setupSession [simp]:
  "nextConn (setupSession c u key url rq w) = nextConn w"
proof -
  obtain b w1 where ab: "acquireBrowser u rq w = (b, w1)" by (cases "acquireBrowser u rq w")
  have w1: "nextConn w1 = nextConn w" using nextConn_setup(3)[of u rq w] ab by simp
  obtain ok w4 where nav: "navigate (Suc (nextRes w1)) url rq (w1\<lparr>nextRes := Suc (Suc (nextRes w1))\<rparr>) = (ok, w4)"
    by (cases "navigate (Suc (nextRes w1)) url rq (w1\<lparr>nextRes := Suc (Suc (nextRes w1))\<rparr>)")
  have w4: "nextConn w4 = nextConn w1"
    using nextConn_setup(4)[of "Suc (nextRes w1)" url rq "w1\<lparr>nextRes := Suc (Suc (nextRes w1))\<rparr>"] nav by simp
  show ?thesis using w1 w4
    by (simp add: setupSession_def registerSession_def ab nav Let_def split: option.splits bool.splits)
qed

lemma nextConn_createSession [simp]:
  "nextConn (createSession c u key url rq w) = nextConn w"
  by (simp add: createSession_def clientMayLeave_def)

lemma nextConn_onConnection [simp]: "nextConn (onConnection rq w) = Suc (nextConn w)"
  by (simp add: onConnection_def Let_def split: option.splits)

lemma nextConn_sweepLoop [simp]: "nextConn (sweepLoop ce es w) = nextConn w"
  by (induction es arbitrary: w) (auto simp: closeUnused_def consoleLog_def Let_def split: option.splits)

lemma nextConn_step: "nextConn w \<le> nextConn (step md5 e w)"
  by (cases e) (simp_all add: sweep_def Let_def split: option.splits)

lemma ds_run:
  "c < nextConn w \<Longrightarrow> noShot md5 c es w \<Longrightarrow> dedupState (run md5 es w) c = dedupState w c"
proof (induction es arbitrary: w)
  case Nil
  show ?case by simp
next
  case (Cons e es)
  have "c < nextConn (step md5 e w)" using Cons.prems(1) nextConn_step[of w md5 e] by simp
  with Cons show ?case by (simp add: ds_step)
qed

lemma resume_shot:
  "dedupState (sendFrame_resume md5 c pg force (Shot img) w) c =
     (if \<not> force \<and> lastScreenshotHash (conns w c) = Some (md5 img) then dedupState w c
      else (Some (md5 img),
            if readyState (conns w c) = OPEN then sent (conns w c) @ [img] else sent (conns w c)))"
  by (auto simp: sendFrame_resume_def Let_def) (simp_all add: dedupState_def updConn_def)

lemma now_prims [simp]:
  "now (updConn c f w) = now w"
  "now (setTimeout c a d w) = now w"
  "now (clearTimeout i w) = now w"
  "now (consoleLog s w) = now w"
  "now (pageCall pg pc w) = now w"
  by (simp_all add: updConn_def setTimeout_def clearTimeout_def consoleLog_def pageCall_def)

lemma timers_prims [simp]:
  "timers (updConn c f w) = timers w"
  "timers (consoleLog s w) = timers w"
  "timers (pageCall pg pc w) = timers w"
  by (simp_all add: updConn_def consoleLog_def pageCall_def)

lemma timers_acquireBrowser [simp]: "timers (snd (acquireBrowser u rq w)) = timers w"
  by (simp add: acquireBrowser_def Let_def split: option.splits)

lemma timers_navigate [simp]: "timers (snd (navigate pg url rq w)) = timers w"
  by (simp add: navigate_def Let_def)

lemma timers_sweepLoop [simp]: "timers (sweepLoop ce es w) = timers w"
  by (induction es arbitrary: w) (auto simp: closeUnused_def consoleLog_def Let_def split: option.splits)

lemma now_sweepLoop [simp]: "now (sweepLoop ce es w) = now w"
  by (induction es arbitrary: w) (auto simp: closeUnused_def consoleLog_def Let_def split: option.splits)

subsection \<open>Deduplication\<close>

text \<open>
  C2 (as amended). For every successful capture: if \<open>force\<close> is false and the frame's hash
  equals the stored hash, nothing is sent and the stored hash is unchanged; if \<open>force\<close> is true
  or the hash differs, the stored hash is updated, and the frame is sent when the socket is
  open (line 102) and not sent otherwise. After a successful capture, as long as no other
  capture of the connection succeeds, a non-forced capture with the same hash is not sent.
\<close>

theorem dedup_rule:
  "(\<not> force \<and> lastScreenshotHash (conns w c) = Some (md5 img) \<longrightarrow>
      sent (conns (sendFrame_resume md5 c pg force (Shot img) w) c) = sent (conns w c)
    \<and> lastScreenshotHash (conns (sendFrame_resume md5 c pg force (Shot img) w) c)
        = lastScreenshotHash (conns w c))
   \<and> (force \<or> lastScreenshotHash (conns w c) \<noteq> Some (md5 img) \<longrightarrow>
      lastScreenshotHash (conns (sendFrame_resume md5 c pg force (Shot img) w) c) = Some (md5 img)
    \<and> sent (conns (sendFrame_resume md5 c pg force (Shot img) w) c)
        = (if readyState (conns w c) = OPEN then sent (conns w c) @ [img] else sent (conns w c)))
   \<and> (c < nextConn w \<and> noShot md5 c es (sendFrame_resume md5 c pg force (Shot img) w)
        \<and> md5 img2 = md5 img \<longrightarrow>
      sent (conns (sendFrame_resume md5 c pg2 False (Shot img2)
                     (run md5 es (sendFrame_resume md5 c pg force (Shot img) w))) c)
        = sent (conns (sendFrame_resume md5 c pg force (Shot img) w) c))"
proof -
  let ?w1 = "sendFrame_resume md5 c pg force (Shot img) w"
  have r: "dedupState ?w1 c =
     (if \<not> force \<and> lastScreenshotHash (conns w c) = Some (md5 img) then dedupState w c
      else (Some (md5 img),
            if readyState (conns w c) = OPEN then sent (conns w c) @ [img] else sent (conns w c)))"
    by (rule resume_shot)
  have h1: "lastScreenshotHash (conns ?w1 c) = Some (md5 img)"
    using r by (auto simp: dedupState_def split: if_splits)
  have A: "\<not> force \<and> lastScreenshotHash (conns w c) = Some (md5 img) \<longrightarrow>
      sent (conns ?w1 c) = sent (conns w c)
    \<and> lastScreenshotHash (conns ?w1 c) = lastScreenshotHash (conns w c)"
    using r by (auto simp: dedupState_def)
  have B: "force \<or> lastScreenshotHash (conns w c) \<noteq> Some (md5 img) \<longrightarrow>
      lastScreenshotHash (conns ?w1 c) = Some (md5 img)
    \<and> sent (conns ?w1 c)
        = (if readyState (conns w c) = OPEN then sent (conns w c) @ [img] else sent (conns w c))"
    using r by (auto simp: dedupState_def)
  have C: "c < nextConn w \<and> noShot md5 c es ?w1 \<and> md5 img2 = md5 img \<longrightarrow>
      sent (conns (sendFrame_resume md5 c pg2 False (Shot img2) (run md5 es ?w1)) c)
        = sent (conns ?w1 c)"
  proof (intro impI, elim conjE)
    assume c: "c < nextConn w" and ns: "noShot md5 c es ?w1" and eq: "md5 img2 = md5 img"
    have "dedupState (run md5 es ?w1) c = dedupState ?w1 c"
      using c ns by (simp add: ds_run)
    then have same: "lastScreenshotHash (conns (run md5 es ?w1) c) = Some (md5 img2)"
                    "sent (conns (run md5 es ?w1) c) = sent (conns ?w1 c)"
      using h1 eq by (simp_all add: dedupState_def)
    have "dedupState (sendFrame_resume md5 c pg2 False (Shot img2) (run md5 es ?w1)) c
            = dedupState (run md5 es ?w1) c"
      using same by (simp add: resume_shot)
    then show "sent (conns (sendFrame_resume md5 c pg2 False (Shot img2) (run md5 es ?w1)) c)
                 = sent (conns ?w1 c)"
      using same by (simp add: dedupState_def)
  qed
  from A B C show ?thesis by blast
qed


subsection \<open>The sweep\<close>

lemma stillUsed_cong: "activeSessions w' = activeSessions w \<Longrightarrow> stillUsed w' b = stillUsed w b"
  by (simp add: stillUsed_def)

lemma closeUnused_activeSessions [simp]:
  "activeSessions (closeUnused ce u b w) = activeSessions w"
  by (simp add: closeUnused_def consoleLog_def Let_def split: option.splits)

lemma closeUnused_stillUsed [simp]: "stillUsed (closeUnused ce u b w) x = stillUsed w x"
  by (simp add: stillUsed_def)

lemma closeUnused_closedBrowsers [simp]:
  "closedBrowsers (closeUnused ce u b w) = closedBrowsers w @ [b]"
  by (simp add: closeUnused_def consoleLog_def Let_def split: option.splits)

lemma closeUnused_userBrowsers [simp]:
  "userBrowsers (closeUnused ce u b w) = filter (\<lambda>x. fst x \<noteq> u) (userBrowsers w)"
  by (auto simp: closeUnused_def consoleLog_def Let_def AList.delete_eq
           split: option.splits intro!: filter_cong)

lemma closeUnused_logs_mono: "set (logs w) \<subseteq> set (logs (closeUnused ce u b w))"
  by (auto simp: closeUnused_def consoleLog_def Let_def split: option.splits)

lemma closeUnused_logs_error:
  "ce b = Some m \<Longrightarrow>
   ''Error al cerrar browser de '' @ u @ '': '' @ m \<in> set (logs (closeUnused ce u b w))"
  by (simp add: closeUnused_def consoleLog_def Let_def)

lemma sweepLoop_activeSessions: "activeSessions (sweepLoop ce es w) = activeSessions w"
  by (induction es arbitrary: w) auto

lemma sweepLoop_closedBrowsers:
  "closedBrowsers (sweepLoop ce es w)
     = closedBrowsers w @ map snd (filter (\<lambda>e. \<not> stillUsed w (snd e)) es)"
  by (induction es arbitrary: w) auto

lemma sweepLoop_userBrowsers:
  "userBrowsers (sweepLoop ce es w)
     = filter (\<lambda>e. \<not> list_ex (\<lambda>x. fst x = fst e \<and> \<not> stillUsed w (snd x)) es) (userBrowsers w)"
  by (induction es arbitrary: w) (auto intro!: filter_cong)

lemma sweepLoop_logs_mono: "set (logs w) \<subseteq> set (logs (sweepLoop ce es w))"
proof (induction es arbitrary: w)
  case Nil
  show ?case by simp
next
  case (Cons e es)
  obtain u b where e: "e = (u, b)" by (cases e)
  show ?case
    using Cons.IH[of w] Cons.IH[of "closeUnused ce u b w"] closeUnused_logs_mono[of w ce u b]
    by (auto simp: e)
qed

lemma sweepLoop_logs_error:
  "(u, b) \<in> set es \<Longrightarrow> \<not> stillUsed w b \<Longrightarrow> ce b = Some m \<Longrightarrow>
   ''Error al cerrar browser de '' @ u @ '': '' @ m \<in> set (logs (sweepLoop ce es w))"
proof (induction es arbitrary: w)
  case Nil
  then show ?case by simp
next
  case (Cons e es)
  obtain u' b' where e: "e = (u', b')" by (cases e)
  show ?case
  proof (cases "(u, b) = e")
    case True
    then have "sweepLoop ce (e # es) w = sweepLoop ce es (closeUnused ce u b w)"
      using Cons.prems by (auto simp: e)
    then show ?thesis
      using closeUnused_logs_error[of ce b m u w] Cons.prems(3)
            sweepLoop_logs_mono[of "closeUnused ce u b w" ce es]
      by auto
  next
    case False
    then have mem: "(u, b) \<in> set es" using Cons.prems by auto
    show ?thesis
      using Cons.IH[OF mem, of w] Cons.IH[OF mem, of "closeUnused ce u' b' w"] Cons.prems(2,3)
      by (auto simp: e)
  qed
qed

text \<open>
  C8. One pass of the sweep, with the registry as it is when the pass starts, in a pool
  whose keys are distinct (it is a \<open>Map\<close>): the pool keeps exactly the entries whose browser
  some registered session refers to, \<open>browser.close()\<close> is called on exactly the others, in
  order, and the registry is untouched; a session waiting for its removal timer is still
  in the registry and counts. None of this depends on \<open>closeErr\<close>: a close that throws is
  logged, its entry is deleted all the same and the loop goes on. The last two
  equations are one turn of the loop in any state \<open>w'\<close>: whatever has run during the awaits
  before it, a browser is closed and removed exactly when no session of the registry of
  that moment refers to it.
\<close>

theorem sweep_closes_exactly_unreferenced:
  assumes "distinct (map fst (userBrowsers w))"
  shows "userBrowsers (sweep closeErr w) = filter (\<lambda>e. stillUsed w (snd e)) (userBrowsers w)
       \<and> closedBrowsers (sweep closeErr w)
           = closedBrowsers w @ map snd (filter (\<lambda>e. \<not> stillUsed w (snd e)) (userBrowsers w))
       \<and> activeSessions (sweep closeErr w) = activeSessions w
       \<and> (\<forall>u b m. (u, b) \<in> set (userBrowsers w) \<and> \<not> stillUsed w b \<and> closeErr b = Some m \<longrightarrow>
             ''Error al cerrar browser de '' @ u @ '': '' @ m \<in> set (logs (sweep closeErr w)))
       \<and> (\<forall>b. stillUsed w b = (\<exists>key s. (key, s) \<in> set (activeSessions w) \<and> browserOf s = b))
       \<and> closedBrowsers (sweepLoop closeErr [(u', b')] w')
           = (if stillUsed w' b' then closedBrowsers w' else closedBrowsers w' @ [b'])
       \<and> userBrowsers (sweepLoop closeErr [(u', b')] w')
           = (if stillUsed w' b' then userBrowsers w'
              else filter (\<lambda>e. fst e \<noteq> u') (userBrowsers w'))"
proof -
  let ?w = "consoleLog ''Sweep'' w"
  have su: "\<And>x. stillUsed ?w x = stillUsed w x"
    by (simp add: stillUsed_def consoleLog_def)
  have ub: "userBrowsers ?w = userBrowsers w" by (simp add: consoleLog_def)
  have uniq: "\<And>u b b'. (u, b) \<in> set (userBrowsers w) \<Longrightarrow> (u, b') \<in> set (userBrowsers w) \<Longrightarrow> b = b'"
    using assms by (rule eq_key_imp_eq_value)
  have "userBrowsers (sweep closeErr w)
          = filter (\<lambda>e. \<not> list_ex (\<lambda>x. fst x = fst e \<and> \<not> stillUsed w (snd x)) (userBrowsers w)) (userBrowsers w)"
    by (simp add: sweep_def sweepLoop_userBrowsers su ub)
  also have "\<dots> = filter (\<lambda>e. stillUsed w (snd e)) (userBrowsers w)"
  proof (rule filter_cong[OF refl])
    fix e assume mem: "e \<in> set (userBrowsers w)"
    obtain u b where e: "e = (u, b)" by (cases e)
    have "list_ex (\<lambda>x. fst x = u \<and> \<not> stillUsed w (snd x)) (userBrowsers w) = (\<not> stillUsed w b)"
    proof
      assume "list_ex (\<lambda>x. fst x = u \<and> \<not> stillUsed w (snd x)) (userBrowsers w)"
      then obtain x where x: "x \<in> set (userBrowsers w)" "fst x = u" "\<not> stillUsed w (snd x)"
        by (auto simp: list_ex_iff)
      then have "(u, snd x) \<in> set (userBrowsers w)" by (cases x) auto
      with mem e have "snd x = b" using uniq by blast
      with x show "\<not> stillUsed w b" by simp
    next
      assume "\<not> stillUsed w b"
      with mem e show "list_ex (\<lambda>x. fst x = u \<and> \<not> stillUsed w (snd x)) (userBrowsers w)"
        by (auto simp: list_ex_iff intro!: bexI[of _ "(u, b)"])
    qed
    then show "(\<not> list_ex (\<lambda>x. fst x = fst e \<and> \<not> stillUsed w (snd x)) (userBrowsers w)) = stillUsed w (snd e)"
      by (simp add: e)
  qed
  finally have A: "userBrowsers (sweep closeErr w) = filter (\<lambda>e. stillUsed w (snd e)) (userBrowsers w)" .
  have B: "closedBrowsers (sweep closeErr w)
           = closedBrowsers w @ map snd (filter (\<lambda>e. \<not> stillUsed w (snd e)) (userBrowsers w))"
    by (simp add: sweep_def sweepLoop_closedBrowsers su ub) (simp add: consoleLog_def)
  have C: "activeSessions (sweep closeErr w) = activeSessions w"
    by (simp add: sweep_def sweepLoop_activeSessions consoleLog_def)
  have D: "\<forall>u b m. (u, b) \<in> set (userBrowsers w) \<and> \<not> stillUsed w b \<and> closeErr b = Some m \<longrightarrow>
             ''Error al cerrar browser de '' @ u @ '': '' @ m \<in> set (logs (sweep closeErr w))"
  proof (intro allI impI)
    fix u b m
    assume h: "(u, b) \<in> set (userBrowsers w) \<and> \<not> stillUsed w b \<and> closeErr b = Some m"
    then have "(u, b) \<in> set (userBrowsers ?w)" "\<not> stillUsed ?w b" "closeErr b = Some m"
      by (simp_all add: su ub)
    from sweepLoop_logs_error[of u b "userBrowsers ?w" ?w closeErr m] this
    show "''Error al cerrar browser de '' @ u @ '': '' @ m \<in> set (logs (sweep closeErr w))"
      by (simp add: sweep_def ub)
  qed
  have E: "\<forall>b. stillUsed w b = (\<exists>key s. (key, s) \<in> set (activeSessions w) \<and> browserOf s = b)"
    by (force simp: stillUsed_def list_ex_iff)
  have F: "closedBrowsers (sweepLoop closeErr [(u', b')] w')
           = (if stillUsed w' b' then closedBrowsers w' else closedBrowsers w' @ [b'])"
    by simp
  have G: "userBrowsers (sweepLoop closeErr [(u', b')] w')
           = (if stillUsed w' b' then userBrowsers w'
              else filter (\<lambda>e. fst e \<noteq> u') (userBrowsers w'))"
    by simp
  from A B C D E F G show ?thesis by blast
qed

subsection \<open>A new connection\<close>

lemma freshConn_prims [simp]:
  "freshConn (setTimeout c a d w) c' = freshConn w c'"
  "freshConn (consoleLog s w) c' = freshConn w c'"
  "freshConn (pageCall pg pc w) c' = freshConn w c'"
  "freshConn (w\<lparr>nextRes := a1\<rparr>) c' = freshConn w c'"
  "freshConn (w\<lparr>userBrowsers := a2\<rparr>) c' = freshConn w c'"
  "freshConn (w\<lparr>activeSessions := a3\<rparr>) c' = freshConn w c'"
  "freshConn (w\<lparr>nextConn := a4\<rparr>) c' = freshConn w c'"
  by (simp_all add: freshConn_def setTimeout_def consoleLog_def pageCall_def)

lemma freshConn_critical [simp]: "freshConn (critical c w) c' = freshConn w c'"
  by (simp add: critical_def Let_def freshConn_def updConn_def consoleLog_def)

lemma freshConn_attach: "sent (conns w c) = [] \<Longrightarrow> freshConn (attach c pg w) c"
  by (simp add: attach_def Let_def freshConn_def updConn_def setTimeout_def)

lemma freshConn_acquireBrowser [simp]: "freshConn (snd (acquireBrowser u rq w)) c' = freshConn w c'"
  by (simp add: acquireBrowser_def Let_def split: option.splits)

lemma freshConn_navigate [simp]: "freshConn (snd (navigate pg url rq w)) c' = freshConn w c'"
  by (simp add: navigate_def Let_def)

lemma freshConn_setupSession:
  assumes "freshConn w c"
  shows "freshConn (setupSession c u key url rq w) c"
proof -
  obtain b w1 where ab: "acquireBrowser u rq w = (b, w1)" by (cases "acquireBrowser u rq w")
  have w1: "freshConn w1 c" using freshConn_acquireBrowser[of u rq w c] ab assms by simp
  obtain ok w4 where nav: "navigate (Suc (nextRes w1)) url rq (w1\<lparr>nextRes := Suc (Suc (nextRes w1))\<rparr>) = (ok, w4)"
    by (cases "navigate (Suc (nextRes w1)) url rq (w1\<lparr>nextRes := Suc (Suc (nextRes w1))\<rparr>)")
  have w4: "freshConn w4 c"
    using freshConn_navigate[of "Suc (nextRes w1)" url rq "w1\<lparr>nextRes := Suc (Suc (nextRes w1))\<rparr>" c] nav w1
    by simp
  then have s4: "sent (conns w4 c) = []" by (simp add: freshConn_def)
  have att: "\<And>x y. freshConn (attach c (Suc (nextRes w1)) (consoleLog x (w4\<lparr>activeSessions := y\<rparr>))) c"
    by (rule freshConn_attach) (simp add: consoleLog_def s4)
  show ?thesis using w1 w4 att
    by (simp add: setupSession_def registerSession_def ab nav Let_def split: option.splits bool.splits)
qed

lemma freshConn_createSession:
  assumes "freshConn w c"
  shows "freshConn (createSession c u key url rq w) c"
proof -
  have "freshConn (clientMayLeave c rq w) c"
    using assms by (simp add: clientMayLeave_def freshConn_def updConn_def)
  then show ?thesis unfolding createSession_def by (rule freshConn_setupSession)
qed

lemma onConnection_freshConn: "freshConn (onConnection rq w) (nextConn w)"
proof -
  let ?c = "nextConn w"
  let ?w = "consoleLog ''Nueva conexion WebSocket'' (w\<lparr>conns := (conns w)(?c := newConn), nextConn := Suc ?c\<rparr>)"
  have f0: "freshConn ?w ?c" by (simp add: freshConn_def newConn_def consoleLog_def)
  have f1: "\<And>x y. freshConn (updConn ?c (\<lambda>k. k\<lparr>sessionKey := x\<rparr>) (consoleLog y ?w)) ?c"
    by (simp add: freshConn_def updConn_def consoleLog_def newConn_def)
  have f2: "\<And>x y z pg. freshConn (attach ?c pg (consoleLog z (updConn ?c (\<lambda>k. k\<lparr>sessionKey := x\<rparr>) (consoleLog y ?w)))) ?c"
    by (rule freshConn_attach) (simp add: updConn_def consoleLog_def newConn_def)
  show ?thesis
    unfolding onConnection_def Let_def
    using f0 f1 f2 by (auto simp: freshConn_createSession split: option.splits)
qed

lemma onConnection_newConn_fields:
  "lastScreenshotHash (conns (onConnection rq w) (nextConn w)) = None
   \<and> lastScrollFrameTs (conns (onConnection rq w) (nextConn w)) = 0
   \<and> scrollSettleTimer (conns (onConnection rq w) (nextConn w)) = None
   \<and> sent (conns (onConnection rq w) (nextConn w)) = []"
  using onConnection_freshConn[of rq w] by (simp add: freshConn_def)

text \<open>
  C10 (as amended). On every connection establishment, whichever path the handler takes,
  the scheduler variables of the new connection are reset: no stored hash, scroll timestamp
  0, no settle timer. So the first successful capture on the new connection, forced or
  not, is never discarded by the deduplication (it is sent when the socket is open): frames
  sent over an earlier connection of the same Session play no part. A later non-forced
  capture is compared with the frames of the connection itself.
\<close>

theorem first_capture_of_connection_passes_dedup:
  "lastScreenshotHash (conns (onConnection rq w) (nextConn w)) = None
   \<and> lastScrollFrameTs (conns (onConnection rq w) (nextConn w)) = 0
   \<and> scrollSettleTimer (conns (onConnection rq w) (nextConn w)) = None
   \<and> (noShot md5 (nextConn w) es (onConnection rq w)
        \<and> isShotFor (nextConn w) (CaptureDone i (Shot img)) (run md5 es (onConnection rq w)) \<longrightarrow>
       sent (conns (step md5 (CaptureDone i (Shot img)) (run md5 es (onConnection rq w))) (nextConn w))
         = (if readyState (conns (run md5 es (onConnection rq w)) (nextConn w)) = OPEN
            then [img] else [])
       \<and> lastScreenshotHash
           (conns (step md5 (CaptureDone i (Shot img)) (run md5 es (onConnection rq w))) (nextConn w))
         = Some (md5 img))"
proof -
  let ?c = "nextConn w"
  let ?w1 = "onConnection rq w"
  note F = onConnection_newConn_fields[of rq w]
  have "noShot md5 ?c es ?w1 \<and> isShotFor ?c (CaptureDone i (Shot img)) (run md5 es ?w1) \<longrightarrow>
       sent (conns (step md5 (CaptureDone i (Shot img)) (run md5 es ?w1)) ?c)
         = (if readyState (conns (run md5 es ?w1) ?c) = OPEN then [img] else [])
       \<and> lastScreenshotHash (conns (step md5 (CaptureDone i (Shot img)) (run md5 es ?w1)) ?c)
         = Some (md5 img)"
  proof (intro impI, elim conjE)
    assume ns: "noShot md5 ?c es ?w1"
       and sh: "isShotFor ?c (CaptureDone i (Shot img)) (run md5 es ?w1)"
    let ?w2 = "run md5 es ?w1"
    have "dedupState ?w2 ?c = dedupState ?w1 ?c"
      using ns by (simp add: ds_run)
    then have st: "lastScreenshotHash (conns ?w2 ?c) = None" "sent (conns ?w2 ?c) = []"
      using F by (simp_all add: dedupState_def)
    let ?w3 = "?w2\<lparr>captures := (captures ?w2)[i := (captures ?w2 ! i)\<lparr>cap_running := False\<rparr>]\<rparr>"
    have st3: "lastScreenshotHash (conns ?w3 ?c) = None" "sent (conns ?w3 ?c) = []"
              "readyState (conns ?w3 ?c) = readyState (conns ?w2 ?c)"
      using st by simp_all
    have "step md5 (CaptureDone i (Shot img)) ?w2
            = sendFrame_resume md5 ?c (cap_page (captures ?w2 ! i)) (cap_force (captures ?w2 ! i))
                (Shot img) ?w3"
      using sh by simp
    then have "dedupState (step md5 (CaptureDone i (Shot img)) ?w2) ?c
                 = (Some (md5 img), if readyState (conns ?w2 ?c) = OPEN then [img] else [])"
      using st3 by (simp add: resume_shot)
    then show "sent (conns (step md5 (CaptureDone i (Shot img)) ?w2) ?c)
         = (if readyState (conns ?w2 ?c) = OPEN then [img] else [])
       \<and> lastScreenshotHash (conns (step md5 (CaptureDone i (Shot img)) ?w2) ?c) = Some (md5 img)"
      by (simp add: dedupState_def)
  qed
  with F show ?thesis by blast
qed

subsection \<open>Failure of the initial navigation\<close>

lemma attach_fields:
  "activeSessions (attach c pg w) = activeSessions w"
  "userBrowsers (attach c pg w) = userBrowsers w"
  "nextRes (attach c pg w) = nextRes w"
  "pageCalls (attach c pg w) = pageCalls w"
  "boundPage (conns (attach c pg w) c) = Some pg"
  "sessionKey (conns (attach c pg w) c) = sessionKey (conns w c)"
  "readyState (conns (attach c pg w) c) = readyState (conns w c)"
  "timers (attach c pg w)
     = timers w @
       [\<lparr> t_owner = c, t_created = now w, t_due = now w + 100,
          t_action = InitFrame pg True, t_status = Pending \<rparr>,
        \<lparr> t_owner = c, t_created = now w, t_due = now w + 1500,
          t_action = InitFrame pg False, t_status = Pending \<rparr>]"
  by (simp_all add: attach_def Let_def updConn_def setTimeout_def
        INITIAL_FRAME_DELAY_MS_def POST_EVENT_EXTRA_DELAY_MS_def)

lemma registerSession_fields:
  "map_of (activeSessions (registerSession c key s w)) key = Some s"
  "pageCalls (registerSession c key s w) = pageCalls w"
  "boundPage (conns (registerSession c key s w) c) = Some (pageOf s)"
  "sessionKey (conns (registerSession c key s w) c) = sessionKey (conns w c)"
  "readyState (conns (registerSession c key s w) c) = readyState (conns w c)"
  "timers (registerSession c key s w)
     = timers w @
       [\<lparr> t_owner = c, t_created = now w, t_due = now w + 100,
          t_action = InitFrame (pageOf s) True, t_status = Pending \<rparr>,
        \<lparr> t_owner = c, t_created = now w, t_due = now w + 1500,
          t_action = InitFrame (pageOf s) False, t_status = Pending \<rparr>]"
  by (simp_all add: registerSession_def attach_fields consoleLog_def AList.update_conv')

lemma critical_fields:
  "activeSessions (critical c w) = activeSessions w"
  "pageCalls (critical c w) = pageCalls w"
  "timers (critical c w) = timers w"
  "boundPage (conns (critical c w) c) = boundPage (conns w c)"
  "readyState (conns (critical c w) c)
     = (if readyState (conns w c) = OPEN then CLOSING else readyState (conns w c))"
  by (simp_all add: critical_def Let_def updConn_def consoleLog_def)

lemma navigate_failed:
  "\<not> (goto_ok rq \<and> title_ok rq) \<Longrightarrow>
   navigate pg url rq w
     = (blank_ok rq, pageCall pg (Goto ''about:blank'')
                (consoleLog ''Error navegacion''
                   (pageCall pg (Goto url) (consoleLog (''Navegando a '' @ url) w))))"
  by (auto simp: navigate_def Let_def)

lemma setupSession_navigate:
  assumes "acquireBrowser u rq w = (Some b, w1)"
      and "newContext_ok rq" and "newPage_ok rq" and "viewport_ok rq"
  shows "setupSession c u key url rq w
     = (case navigate (Suc (nextRes w1)) url rq (w1\<lparr>nextRes := Suc (Suc (nextRes w1))\<rparr>) of
          (False, w4) \<Rightarrow> critical c w4
        | (True, w4) \<Rightarrow>
            registerSession c key
              \<lparr> pageOf = Suc (nextRes w1), contextOf = nextRes w1, browserOf = b \<rparr> w4)"
  using assms by (simp add: setupSession_def Let_def split: prod.splits bool.splits)

lemma acquireBrowser_cases:
  "launch_ok rq \<or> map_of (userBrowsers w) u \<noteq> None \<Longrightarrow>
   \<exists>b w1. acquireBrowser u rq w = (Some b, w1)
        \<and> map_of (userBrowsers w1) u = Some b \<and> nextRes w \<le> nextRes w1
        \<and> activeSessions w1 = activeSessions w \<and> pageCalls w1 = pageCalls w
        \<and> timers w1 = timers w \<and> conns w1 = conns w \<and> now w1 = now w"
  by (cases "map_of (userBrowsers w) u")
     (auto simp: acquireBrowser_def Let_def consoleLog_def AList.update_conv')

text \<open>
  C9 (as amended). A connection that creates a Session (no Session with an open page is
  registered under its key; the user's browser exists or can be launched; context and page
  can be opened) and whose initial navigation fails (\<open>page.goto\<close> or the \<open>page.title()\<close> of the
  same \<open>try\<close> throws). If the fallback navigation to \<open>about:blank\<close> succeeds, the page is
  sent to the blank page, the Session is registered under the key with that page, and the
  connection is bound to it: its handlers are installed on the page and its two initial
  frames are scheduled; the socket is open, unless the client has closed it during the
  awaits. If the fallback navigation throws too, the handler registers nothing: the
  registry is as before, no handler is installed, no frame is scheduled, and the socket is
  closed by the server (or already by the client). The last three groups of equations are
  the code that runs after the awaits (lines 291, 294-304 and 305-310), in any state: they
  hold whatever other handlers have done meanwhile.
\<close>

theorem navigation_failure_falls_back:
  assumes "url_ok rq"
      and "\<forall>s. map_of (activeSessions w) (sessionKeyOf rq (now w)) = Some s
               \<longrightarrow> pageOf s \<in> set (closedPages w)"
      and "launch_ok rq \<or> map_of (userBrowsers w) (userIdOf rq (now w)) \<noteq> None"
      and "newContext_ok rq" and "newPage_ok rq" and "viewport_ok rq"
      and "\<not> (goto_ok rq \<and> title_ok rq)"
  shows "(blank_ok rq \<longrightarrow>
          (\<exists>s. map_of (activeSessions (onConnection rq w)) (sessionKeyOf rq (now w)) = Some s
             \<and> nextRes w \<le> contextOf s \<and> pageOf s = Suc (contextOf s)
             \<and> boundPage (conns (onConnection rq w) (nextConn w)) = Some (pageOf s)
             \<and> sessionKey (conns (onConnection rq w) (nextConn w)) = sessionKeyOf rq (now w)
             \<and> readyState (conns (onConnection rq w) (nextConn w))
                 = (if client_gone rq then CLOSED else OPEN)
             \<and> pageCalls (onConnection rq w)
                 = pageCalls w @
                   [(pageOf s, Goto (targetUrlOf rq)), (pageOf s, Goto ''about:blank'')]
             \<and> timers (onConnection rq w)
                 = timers w @
                   [\<lparr> t_owner = nextConn w, t_created = now w, t_due = now w + 100,
                      t_action = InitFrame (pageOf s) True, t_status = Pending \<rparr>,
                    \<lparr> t_owner = nextConn w, t_created = now w, t_due = now w + 1500,
                      t_action = InitFrame (pageOf s) False, t_status = Pending \<rparr>]))
       \<and> (\<not> blank_ok rq \<longrightarrow>
            activeSessions (onConnection rq w) = activeSessions w
          \<and> boundPage (conns (onConnection rq w) (nextConn w)) = None
          \<and> timers (onConnection rq w) = timers w
          \<and> readyState (conns (onConnection rq w) (nextConn w))
              = (if client_gone rq then CLOSED else CLOSING))
       \<and> fst (navigate pg' url' rq w') = blank_ok rq
       \<and> pageCalls (snd (navigate pg' url' rq w'))
           = pageCalls w' @ [(pg', Goto url'), (pg', Goto ''about:blank'')]
       \<and> map_of (activeSessions (registerSession c' key' s' w')) key' = Some s'
       \<and> boundPage (conns (registerSession c' key' s' w') c') = Some (pageOf s')
       \<and> readyState (conns (registerSession c' key' s' w') c') = readyState (conns w' c')
       \<and> timers (registerSession c' key' s' w')
           = timers w' @
             [\<lparr> t_owner = c', t_created = now w', t_due = now w' + 100,
                t_action = InitFrame (pageOf s') True, t_status = Pending \<rparr>,
              \<lparr> t_owner = c', t_created = now w', t_due = now w' + 1500,
                t_action = InitFrame (pageOf s') False, t_status = Pending \<rparr>]
       \<and> activeSessions (critical c' w') = activeSessions w'
       \<and> timers (critical c' w') = timers w'
       \<and> boundPage (conns (critical c' w') c') = boundPage (conns w' c')
       \<and> readyState (conns (critical c' w') c')
           = (if readyState (conns w' c') = OPEN then CLOSING else readyState (conns w' c'))"
proof -
  define c where "c = nextConn w"
  define u where "u = userIdOf rq (now w)"
  define key where "key = sessionKeyOf rq (now w)"
  define url where "url = targetUrlOf rq"
  define w0 where "w0 = updConn c (\<lambda>k. k\<lparr>sessionKey := key\<rparr>)
                      (consoleLog (u @ ''/'' @ sessionIdOf rq (now w) @ '' -> '' @ url)
                        (consoleLog ''Nueva conexion WebSocket''
                          (w\<lparr>conns := (conns w)(c := newConn), nextConn := Suc c\<rparr>)))"
  define w0' where "w0' = clientMayLeave c rq w0"
  have w0: "activeSessions w0 = activeSessions w" "closedPages w0 = closedPages w"
    by (simp_all add: w0_def updConn_def consoleLog_def)
  have w0': "activeSessions w0' = activeSessions w"
           "userBrowsers w0' = userBrowsers w" "nextRes w0' = nextRes w" "pageCalls w0' = pageCalls w"
           "timers w0' = timers w" "now w0' = now w"
           "sessionKey (conns w0' c) = key" "boundPage (conns w0' c) = None"
           "readyState (conns w0' c) = (if client_gone rq then CLOSED else OPEN)"
    by (simp_all add: w0'_def w0_def clientMayLeave_def updConn_def consoleLog_def newConn_def)
  have nowlog: "\<And>x v. now (consoleLog x v) = now v" by (simp add: consoleLog_def)
  have "onConnection rq w =
          (case map_of (activeSessions w0) key of
             None \<Rightarrow> createSession c u key url rq w0
           | Some s \<Rightarrow>
               if \<not> pageIsClosed w0 (pageOf s)
               then attach c (pageOf s) (consoleLog (''Reutilizando sesion existente: '' @ key) w0)
               else createSession c u key url rq w0)"
    using assms(1)
    by (simp add: onConnection_def Let_def c_def u_def key_def url_def w0_def nowlog
          split: option.splits)
  then have "onConnection rq w = createSession c u key url rq w0"
    using assms(2) by (auto simp: pageIsClosed_def w0 key_def split: option.splits)
  then have oc: "onConnection rq w = setupSession c u key url rq w0'"
    by (simp add: createSession_def w0'_def)
  from acquireBrowser_cases[of rq w0' u] assms(3)
  obtain b w1 where ab: "acquireBrowser u rq w0' = (Some b, w1)"
     and w1: "nextRes w \<le> nextRes w1"
             "activeSessions w1 = activeSessions w" "pageCalls w1 = pageCalls w"
             "timers w1 = timers w" "conns w1 = conns w0'" "now w1 = now w"
    by (auto simp: w0' u_def)
  define pg where "pg = Suc (nextRes w1)"
  define s where "s = \<lparr> pageOf = pg, contextOf = nextRes w1, browserOf = b \<rparr>"
  define w4 where "w4 = pageCall pg (Goto ''about:blank'')
                (consoleLog ''Error navegacion''
                   (pageCall pg (Goto url)
                      (consoleLog (''Navegando a '' @ url) (w1\<lparr>nextRes := Suc pg\<rparr>))))"
  have w4: "activeSessions w4 = activeSessions w" "timers w4 = timers w" "now w4 = now w"
           "conns w4 = conns w0'"
           "pageCalls w4 = pageCalls w @ [(pg, Goto url), (pg, Goto ''about:blank'')]"
    by (simp_all add: w4_def pageCall_def consoleLog_def w1)
  have nav: "navigate pg url rq (w1\<lparr>nextRes := Suc pg\<rparr>) = (blank_ok rq, w4)"
    using assms(7) by (simp add: navigate_failed w4_def)
  have ss: "onConnection rq w = (if blank_ok rq then registerSession c key s w4 else critical c w4)"
    unfolding oc setupSession_navigate[OF ab assms(4,5,6)] pg_def[symmetric] s_def
    by (simp add: nav)
  have A: "blank_ok rq \<longrightarrow>
          (\<exists>s. map_of (activeSessions (onConnection rq w)) key = Some s
             \<and> nextRes w \<le> contextOf s \<and> pageOf s = Suc (contextOf s)
             \<and> boundPage (conns (onConnection rq w) c) = Some (pageOf s)
             \<and> sessionKey (conns (onConnection rq w) c) = key
             \<and> readyState (conns (onConnection rq w) c)
                 = (if client_gone rq then CLOSED else OPEN)
             \<and> pageCalls (onConnection rq w)
                 = pageCalls w @ [(pageOf s, Goto url), (pageOf s, Goto ''about:blank'')]
             \<and> timers (onConnection rq w)
                 = timers w @
                   [\<lparr> t_owner = c, t_created = now w, t_due = now w + 100,
                      t_action = InitFrame (pageOf s) True, t_status = Pending \<rparr>,
                    \<lparr> t_owner = c, t_created = now w, t_due = now w + 1500,
                      t_action = InitFrame (pageOf s) False, t_status = Pending \<rparr>])"
  proof
    assume bl: "blank_ok rq"
    have r: "onConnection rq w = registerSession c key s w4"
      using bl by (simp add: ss)
    have r1: "map_of (activeSessions (onConnection rq w)) key = Some s"
      unfolding r by (rule registerSession_fields)
    have r2: "nextRes w \<le> contextOf s" "pageOf s = Suc (contextOf s)"
      using w1(1) by (simp_all add: s_def pg_def)
    have r3: "boundPage (conns (onConnection rq w) c) = Some (pageOf s)"
      unfolding r by (rule registerSession_fields)
    have r4: "sessionKey (conns (onConnection rq w) c) = key"
      unfolding r registerSession_fields w4 by (rule w0')
    have r5: "readyState (conns (onConnection rq w) c) = (if client_gone rq then CLOSED else OPEN)"
      unfolding r registerSession_fields w4 by (rule w0')
    have r6: "pageCalls (onConnection rq w)
                 = pageCalls w @ [(pageOf s, Goto url), (pageOf s, Goto ''about:blank'')]"
      unfolding r registerSession_fields w4 by (simp add: s_def)
    have r7: "timers (onConnection rq w)
                 = timers w @
                   [\<lparr> t_owner = c, t_created = now w, t_due = now w + 100,
                      t_action = InitFrame (pageOf s) True, t_status = Pending \<rparr>,
                    \<lparr> t_owner = c, t_created = now w, t_due = now w + 1500,
                      t_action = InitFrame (pageOf s) False, t_status = Pending \<rparr>]"
      unfolding r registerSession_fields w4 by (rule refl)
    show "\<exists>s. map_of (activeSessions (onConnection rq w)) key = Some s
             \<and> nextRes w \<le> contextOf s \<and> pageOf s = Suc (contextOf s)
             \<and> boundPage (conns (onConnection rq w) c) = Some (pageOf s)
             \<and> sessionKey (conns (onConnection rq w) c) = key
             \<and> readyState (conns (onConnection rq w) c)
                 = (if client_gone rq then CLOSED else OPEN)
             \<and> pageCalls (onConnection rq w)
                 = pageCalls w @ [(pageOf s, Goto url), (pageOf s, Goto ''about:blank'')]
             \<and> timers (onConnection rq w)
                 = timers w @
                   [\<lparr> t_owner = c, t_created = now w, t_due = now w + 100,
                      t_action = InitFrame (pageOf s) True, t_status = Pending \<rparr>,
                    \<lparr> t_owner = c, t_created = now w, t_due = now w + 1500,
                      t_action = InitFrame (pageOf s) False, t_status = Pending \<rparr>]"
      by (intro exI[of _ s] conjI r1 r2 r3 r4 r5 r6 r7)
  qed
  have B: "\<not> blank_ok rq \<longrightarrow>
            activeSessions (onConnection rq w) = activeSessions w
          \<and> boundPage (conns (onConnection rq w) c) = None
          \<and> timers (onConnection rq w) = timers w
          \<and> readyState (conns (onConnection rq w) c)
              = (if client_gone rq then CLOSED else CLOSING)"
  proof
    assume nb: "\<not> blank_ok rq"
    have q: "onConnection rq w = critical c w4"
      using nb by (simp add: ss)
    have q1: "activeSessions (onConnection rq w) = activeSessions w"
      unfolding q critical_fields by (rule w4)
    have q2: "boundPage (conns (onConnection rq w) c) = None"
      unfolding q critical_fields w4 by (rule w0')
    have q3: "timers (onConnection rq w) = timers w"
      unfolding q critical_fields by (rule w4)
    have "readyState (conns (critical c w4) c)
            = (if readyState (conns w0' c) = OPEN then CLOSING else readyState (conns w0' c))"
      unfolding critical_fields w4 by (rule refl)
    then have q4: "readyState (conns (onConnection rq w) c)
                     = (if client_gone rq then CLOSED else CLOSING)"
      unfolding q w0'(9) by simp
    show "activeSessions (onConnection rq w) = activeSessions w
          \<and> boundPage (conns (onConnection rq w) c) = None
          \<and> timers (onConnection rq w) = timers w
          \<and> readyState (conns (onConnection rq w) c)
              = (if client_gone rq then CLOSED else CLOSING)"
      by (intro conjI q1 q2 q3 q4)
  qed
  have C: "fst (navigate pg' url' rq w') = blank_ok rq"
          "pageCalls (snd (navigate pg' url' rq w'))
             = pageCalls w' @ [(pg', Goto url'), (pg', Goto ''about:blank'')]"
    using assms(7) by (simp_all add: navigate_failed pageCall_def consoleLog_def)
  note D = registerSession_fields(1,3,5,6)[of c' key' s' w']
  note E = critical_fields(1,3,4,5)[of c' w']
  show ?thesis
    using A B unfolding c_def u_def key_def url_def
    by (intro conjI) (assumption | rule C D E)+
qed

subsection \<open>Live scroll frames\<close>

lemma spaced_snoc:
  "spaced (xs @ [x]) = (spaced xs \<and> (xs \<noteq> [] \<longrightarrow> x - last xs > MIN_SCROLL_FRAME_INTERVAL_MS))"
  by (induction xs rule: spaced.induct) auto

lemma spaced_nth:
  "spaced xs \<Longrightarrow> i < j \<Longrightarrow> j < length xs \<Longrightarrow>
   xs ! j - xs ! i > MIN_SCROLL_FRAME_INTERVAL_MS * int (j - i)"
proof (induction xs arbitrary: i j rule: spaced.induct)
  case 1
  then show ?case by simp
next
  case (2 x)
  then show ?case by simp
next
  case (3 x y xs)
  show ?case
  proof (cases i)
    case 0
    show ?thesis
    proof (cases "j = 1")
      case True
      then show ?thesis using 0 "3.prems" by simp
    next
      case False
      then obtain j' where j: "j = Suc j'" "0 < j'" using "3.prems" 0 by (cases j) auto
      have "(y # xs) ! j' - (y # xs) ! 0 > MIN_SCROLL_FRAME_INTERVAL_MS * int (j' - 0)"
        using "3.IH"[of 0 j'] "3.prems" j by simp
      then show ?thesis using 0 j "3.prems"(1) by (simp add: algebra_simps)
    qed
  next
    case (Suc i')
    then obtain j' where j: "j = Suc j'" "i' < j'" using "3.prems" by (cases j) auto
    show ?thesis using "3.IH"[of i' j'] "3.prems" Suc j by simp
  qed
qed

lemma map_filter_update_same:
  "P y = P (xs ! i) \<Longrightarrow> f y = f (xs ! i) \<Longrightarrow>
   map f (filter P (xs[i := y])) = map f (filter P xs)"
proof (induction xs arbitrary: i)
  case Nil
  show ?case by simp
next
  case (Cons x xs)
  show ?case
  proof (cases i)
    case 0
    then show ?thesis using Cons.prems by simp
  next
    case (Suc i')
    then show ?thesis using Cons.IH[of i'] Cons.prems by simp
  qed
qed


lemma ball_set_update_same:
  "Q y = Q (xs ! i) \<Longrightarrow> (\<forall>t \<in> set (xs[i := y]). Q t) = (\<forall>t \<in> set xs. Q t)"
proof (induction xs arbitrary: i)
  case Nil
  show ?case by simp
next
  case (Cons x xs)
  show ?case
  proof (cases i)
    case 0
    then show ?thesis using Cons.prems by simp
  next
    case (Suc i')
    then show ?thesis using Cons.IH[of i'] Cons.prems by simp
  qed
qed

lemma liveInv_cong:
  "timers w' = timers w \<Longrightarrow> now w' = now w \<Longrightarrow> nextConn w' = nextConn w \<Longrightarrow>
   (\<And>c. lastScrollFrameTs (conns w' c) = lastScrollFrameTs (conns w c)) \<Longrightarrow>
   liveInv w' = liveInv w"
  by (simp add: liveInv_def liveTimes_def)

lemma liveInv_prims [simp]:
  "liveInv (consoleLog s w) = liveInv w"
  "liveInv (pageCall pg pc w) = liveInv w"
  "liveInv (w\<lparr>userBrowsers := a2\<rparr>) = liveInv w"
  "liveInv (w\<lparr>activeSessions := a3\<rparr>) = liveInv w"
  "liveInv (w\<lparr>captures := a6\<rparr>) = liveInv w"
  "liveInv (w\<lparr>closedPages := a7\<rparr>) = liveInv w"
  "liveInv (w\<lparr>closedContexts := a8\<rparr>) = liveInv w"
  "liveInv (w\<lparr>closedBrowsers := a9\<rparr>) = liveInv w"
  "liveInv (w\<lparr>nextRes := a10\<rparr>) = liveInv w"
  by (rule liveInv_cong; simp add: consoleLog_def pageCall_def)+

lemma liveInv_updConn:
  "(\<And>k. lastScrollFrameTs (f k) = lastScrollFrameTs k) \<Longrightarrow> liveInv (updConn c f w) = liveInv w"
  by (rule liveInv_cong) (simp_all add: updConn_def)

lemma liveInv_status [simp]:
  "liveInv (w\<lparr>timers := (timers w)[i := (timers w ! i)\<lparr>t_status := s\<rparr>]\<rparr>) = liveInv w"
proof -
  let ?y = "(timers w ! i)\<lparr>t_status := s\<rparr>"
  have lt: "\<And>c. liveTimes c (w\<lparr>timers := (timers w)[i := ?y]\<rparr>) = liveTimes c w"
    unfolding liveTimes_def by (simp add: map_filter_update_same)
  have ball: "\<And>Q. Q ?y = Q (timers w ! i) \<Longrightarrow>
     (\<forall>t \<in> set ((timers w)[i := ?y]). Q t) = (\<forall>t \<in> set (timers w). Q t)"
    by (rule ball_set_update_same)
  show ?thesis
    unfolding liveInv_def lt by (simp add: ball)
qed

lemma liveInv_clearTimeout [simp]: "liveInv (clearTimeout i w) = liveInv w"
  by (simp add: clearTimeout_def)

lemma liveInv_setTimeout:
  "\<not> isLive a \<Longrightarrow> liveInv (setTimeout c a d w) = liveInv w"
  by (auto simp: liveInv_def liveTimes_def setTimeout_def)

lemma liveInv_sendFrame [simp]:
  "liveInv (sendFrame_finally c pg w) = liveInv w"
  "liveInv (sendFrame c pg f w) = liveInv w"
  "liveInv (sendFrame_catch c msg w) = liveInv w"
  "liveInv (sendFrame_resume md5 c pg f out w) = liveInv w"
  by (simp_all add: sendFrame_finally_def sendFrame_def sendFrame_catch_def sendFrame_resume_def
        Let_def liveInv_updConn liveInv_setTimeout split: outcome.splits)

lemma liveInv_schedule [simp]:
  "liveInv (scheduleEventFrames c pg d w) = liveInv w"
  "liveInv (scheduleNavFrames c pg f w) = liveInv w"
  by (simp_all add: scheduleEventFrames_def scheduleNavFrames_def liveInv_setTimeout)


lemma liveTimes_setTimeout:
  "liveTimes c' (setTimeout c a d w)
     = (if c' = c \<and> isLive a then liveTimes c' w @ [now w] else liveTimes c' w)"
  by (simp add: liveTimes_def setTimeout_def)

lemma liveTimes_updConn [simp]: "liveTimes c' (updConn c f w) = liveTimes c' w"
  by (simp add: liveTimes_def updConn_def)

lemma liveTimes_clearTimeout [simp]: "liveTimes c' (clearTimeout i w) = liveTimes c' w"
  by (simp add: liveTimes_def clearTimeout_def map_filter_update_same)

lemma liveTimes_last:
  "liveInv w \<Longrightarrow> liveTimes c w \<noteq> [] \<Longrightarrow> last (liveTimes c w) \<le> lastScrollFrameTs (conns w c)"
proof -
  assume inv: "liveInv w" and ne: "liveTimes c w \<noteq> []"
  have "last (liveTimes c w) \<in> set (liveTimes c w)" using ne by simp
  then obtain t where "t \<in> set (timers w)" "t_owner t = c" "isLive (t_action t)"
                      "last (liveTimes c w) = t_created t"
    by (auto simp: liveTimes_def)
  then show ?thesis using inv by (auto simp: liveInv_def)
qed

lemma liveInv_live:
  assumes "liveInv w" and "c < nextConn w"
      and "now w - lastScrollFrameTs (conns w c) > MIN_SCROLL_FRAME_INTERVAL_MS"
  shows "liveInv (setTimeout c (ScrollLive pg) d (updConn c (\<lambda>k. k\<lparr>lastScrollFrameTs := now w\<rparr>) w))"
proof -
  let ?w1 = "updConn c (\<lambda>k. k\<lparr>lastScrollFrameTs := now w\<rparr>) w"
  let ?w2 = "setTimeout c (ScrollLive pg) d ?w1"
  have A: "\<forall>t \<in> set (timers ?w2). t_created t \<le> now ?w2
          \<and> (isLive (t_action t) \<longrightarrow>
               t_owner t < nextConn ?w2
               \<and> t_created t \<le> lastScrollFrameTs (conns ?w2 (t_owner t)))"
    using assms(1,2) by (auto simp: liveInv_def setTimeout_def updConn_def)
  have B: "spaced (liveTimes c' ?w2)" for c'
  proof (cases "c' = c")
    case False
    then show ?thesis using assms(1) by (simp add: liveTimes_setTimeout liveInv_def)
  next
    case True
    have sp: "spaced (liveTimes c w)" using assms(1) by (simp add: liveInv_def)
    have "liveTimes c w \<noteq> [] \<longrightarrow> now w - last (liveTimes c w) > MIN_SCROLL_FRAME_INTERVAL_MS"
      using liveTimes_last[OF assms(1), of c] assms(3) by auto
    then show ?thesis using True sp
      by (simp add: liveTimes_setTimeout spaced_snoc)
  qed
  show ?thesis unfolding liveInv_def using A B by blast
qed

lemma liveInv_settle:
  "liveInv w \<Longrightarrow> liveInv (updConn c (\<lambda>k. k\<lparr>lastScrollFrameTs := now w\<rparr>) w)"
  by (auto simp: liveInv_def updConn_def) (force simp: liveTimes_def)+


lemma liveInv_scheduleScrollFrames:
  assumes "liveInv w" and "c < nextConn w"
  shows "liveInv (scheduleScrollFrames c pg w)"
proof -
  define w1 where "w1 = (if now w - lastScrollFrameTs (conns w c) > MIN_SCROLL_FRAME_INTERVAL_MS
                then setTimeout c (ScrollLive pg) INTERACTION_FRAME_DELAY_MS
                       (updConn c (\<lambda>k. k\<lparr>lastScrollFrameTs := now w\<rparr>) w)
                else w)"
  have w1: "liveInv w1"
    using assms by (simp add: w1_def liveInv_live)
  show ?thesis
    unfolding scheduleScrollFrames_def Let_def w1_def[symmetric]
    using w1 by (simp add: liveInv_updConn liveInv_setTimeout split: option.splits)
qed

lemma liveTimes_scheduleScrollFrames:
  "liveTimes c (scheduleScrollFrames c pg w)
     = (if now w - lastScrollFrameTs (conns w c) > MIN_SCROLL_FRAME_INTERVAL_MS
        then liveTimes c w @ [now w] else liveTimes c w)"
  by (simp add: scheduleScrollFrames_def Let_def liveTimes_setTimeout split: option.splits)

lemma liveInv_onMessage:
  "liveInv w \<Longrightarrow> c < nextConn w \<Longrightarrow> liveInv (onMessage c pg cmd ok w)"
  by (cases cmd)
     (simp_all add: onMessage_def interactionError_def Let_def liveInv_scheduleScrollFrames)

lemma liveInv_onClose [simp]: "liveInv (onClose c k w) = liveInv w"
  by (simp add: onClose_def Let_def liveInv_updConn liveInv_setTimeout split: option.splits)

lemma liveInv_removeSession [simp]: "liveInv (removeSession k w) = liveInv w"
  by (simp add: removeSession_def split: option.splits)

lemma liveInv_timerCallback: "liveInv w \<Longrightarrow> liveInv (timerCallback c a w)"
  by (cases a) (simp_all add: timerCallback_def liveInv_settle)

lemma liveInv_critical [simp]: "liveInv (critical c w) = liveInv w"
  by (simp add: critical_def Let_def liveInv_updConn)

lemma liveInv_attach:
  assumes "liveInv w" and "\<forall>t \<in> set (timers w). isLive (t_action t) \<longrightarrow> t_owner t \<noteq> c"
  shows "liveInv (attach c pg w)"
proof -
  let ?w1 = "updConn c (\<lambda>k. k\<lparr>lastScreenshotHash := None, lastScrollFrameTs := 0,
                                 scrollSettleTimer := None\<rparr>) w"
  have "liveInv ?w1"
    using assms unfolding liveInv_def by (simp add: updConn_def liveTimes_def)
  then show ?thesis
    by (simp add: attach_def Let_def liveInv_updConn liveInv_setTimeout)
qed

lemma liveInv_acquireBrowser [simp]: "liveInv (snd (acquireBrowser u rq w)) = liveInv w"
  by (simp add: acquireBrowser_def Let_def split: option.splits)

lemma liveInv_navigate [simp]: "liveInv (snd (navigate pg url rq w)) = liveInv w"
  by (simp add: navigate_def Let_def)

lemma liveInv_setupSession:
  assumes "liveInv w" and "\<forall>t \<in> set (timers w). isLive (t_action t) \<longrightarrow> t_owner t \<noteq> c"
  shows "liveInv (setupSession c u key url rq w)"
proof -
  obtain b w1 where ab: "acquireBrowser u rq w = (b, w1)" by (cases "acquireBrowser u rq w")
  have w1: "liveInv w1" "timers w1 = timers w"
    using liveInv_acquireBrowser[of u rq w] timers_acquireBrowser[of u rq w] ab assms by simp_all
  let ?w3 = "w1\<lparr>nextRes := Suc (Suc (nextRes w1))\<rparr>"
  obtain ok w4 where nav: "navigate (Suc (nextRes w1)) url rq ?w3 = (ok, w4)"
    by (cases "navigate (Suc (nextRes w1)) url rq ?w3")
  have w4: "liveInv w4" "timers w4 = timers w"
    using liveInv_navigate[of "Suc (nextRes w1)" url rq ?w3]
          timers_navigate[of "Suc (nextRes w1)" url rq ?w3] nav w1 by simp_all
  have att: "\<And>x y. liveInv (attach c (Suc (nextRes w1)) (consoleLog x (w4\<lparr>activeSessions := y\<rparr>)))"
    by (rule liveInv_attach) (use w4 assms(2) in simp_all)
  show ?thesis using w1 w4 att
    by (simp add: setupSession_def registerSession_def ab nav Let_def split: option.splits bool.splits)
qed

lemma liveInv_createSession:
  assumes "liveInv w" and "\<forall>t \<in> set (timers w). isLive (t_action t) \<longrightarrow> t_owner t \<noteq> c"
  shows "liveInv (createSession c u key url rq w)"
  unfolding createSession_def
  by (rule liveInv_setupSession) (use assms in \<open>simp_all add: clientMayLeave_def liveInv_updConn\<close>)

lemma liveInv_onConnection:
  assumes "liveInv w"
  shows "liveInv (onConnection rq w)"
proof -
  let ?c = "nextConn w"
  let ?w = "consoleLog ''Nueva conexion WebSocket'' (w\<lparr>conns := (conns w)(?c := newConn), nextConn := Suc ?c\<rparr>)"
  have own: "\<forall>t \<in> set (timers w). isLive (t_action t) \<longrightarrow> t_owner t \<noteq> ?c"
    using assms by (auto simp: liveInv_def)
  have "liveInv (w\<lparr>conns := (conns w)(?c := newConn), nextConn := Suc ?c\<rparr>)"
    using assms unfolding liveInv_def by (auto simp: liveTimes_def)
  then have f0: "liveInv ?w" by simp
  have t0: "timers ?w = timers w" by simp
  have f1: "\<And>x y. liveInv (updConn ?c (\<lambda>k. k\<lparr>sessionKey := x\<rparr>) (consoleLog y ?w))"
    using f0 by (simp add: liveInv_updConn)
  have f2: "\<And>x y z pg. liveInv (attach ?c pg (consoleLog z (updConn ?c (\<lambda>k. k\<lparr>sessionKey := x\<rparr>) (consoleLog y ?w))))"
    by (rule liveInv_attach) (use f1 own in simp_all)
  have f3: "\<And>x y u key url. liveInv (createSession ?c u key url rq (updConn ?c (\<lambda>k. k\<lparr>sessionKey := x\<rparr>) (consoleLog y ?w)))"
    by (rule liveInv_createSession) (use f1 own in simp_all)
  show ?thesis
    unfolding onConnection_def Let_def
    using f0 f2 f3 by (auto split: option.splits)
qed

lemma liveInv_sweep [simp]: "liveInv (sweep ce w) = liveInv w"
  by (rule liveInv_cong) (simp_all add: sweep_def consoleLog_def)

lemma liveInv_advance: "liveInv w \<Longrightarrow> liveInv (w\<lparr>now := now w + int d\<rparr>)"
  unfolding liveInv_def by (auto simp: liveTimes_def)

lemma liveInv_step: "liveInv w \<Longrightarrow> liveInv (step md5 e w)"
proof (cases e)
  case (Fire i)
  assume inv: "liveInv w"
  show ?thesis
  proof (cases "i < length (timers w) \<and> t_status (timers w ! i) = Pending \<and> t_due (timers w ! i) \<le> now w")
    case True
    have "liveInv (w\<lparr>timers := (timers w)[i := (timers w ! i)\<lparr>t_status := Fired\<rparr>]\<rparr>)"
      using inv by simp
    then show ?thesis using True Fire by (simp add: liveInv_timerCallback)
  next
    case False
    then show ?thesis using inv Fire by auto
  qed
qed (simp_all add: liveInv_advance liveInv_onConnection liveInv_onMessage liveInv_updConn Let_def
       split: option.splits)

lemma liveInv_init: "liveInv (init_world t0)"
  by (simp add: liveInv_def init_world_def liveTimes_def)

lemma liveInv_run: "liveInv w \<Longrightarrow> liveInv (run md5 es w)"
  by (induction es arbitrary: w) (simp_all add: liveInv_step)

text \<open>
  C6. A scroll event schedules a live frame only if more than the minimum interval
  (120 ms) has passed since \<open>lastScrollFrameTs\<close>, the time of the last live or settle scroll
  frame of the connection. So in every run of the server, from its start, the live scroll
  frames of a connection are scheduled more than that interval apart, each after the one
  before; any \<open>k + 1\<close> of them span more than \<open>k\<close> times the interval, whatever the frequency
  of the wheel events: the rate of live frames is bounded by one per interval.
\<close>

theorem live_scroll_frames_spaced:
  "liveTimes c (scheduleScrollFrames c pg w)
     = (if now w - lastScrollFrameTs (conns w c) > MIN_SCROLL_FRAME_INTERVAL_MS
        then liveTimes c w @ [now w] else liveTimes c w)
   \<and> spaced (liveTimes c (run md5 es (init_world t0)))
   \<and> (\<forall>i j. i < j \<and> j < length (liveTimes c (run md5 es (init_world t0))) \<longrightarrow>
         liveTimes c (run md5 es (init_world t0)) ! j - liveTimes c (run md5 es (init_world t0)) ! i
           > MIN_SCROLL_FRAME_INTERVAL_MS * int (j - i))"
proof -
  have "liveInv (run md5 es (init_world t0))"
    by (rule liveInv_run) (rule liveInv_init)
  then have sp: "spaced (liveTimes c (run md5 es (init_world t0)))"
    by (simp add: liveInv_def)
  show ?thesis
    using sp spaced_nth[OF sp] by (simp add: liveTimes_scheduleScrollFrames)
qed

subsection \<open>The settle timer\<close>

lemma settleInv_cong:
  "timers w' = timers w \<Longrightarrow> nextConn w' = nextConn w \<Longrightarrow>
   (\<And>c. scrollSettleTimer (conns w' c) = scrollSettleTimer (conns w c)) \<Longrightarrow>
   settleInv w' = settleInv w"
  by (simp add: settleInv_def)

lemma settleInv_prims [simp]:
  "settleInv (consoleLog s w) = settleInv w"
  "settleInv (pageCall pg pc w) = settleInv w"
  "settleInv (w\<lparr>now := a1\<rparr>) = settleInv w"
  "settleInv (w\<lparr>userBrowsers := a2\<rparr>) = settleInv w"
  "settleInv (w\<lparr>activeSessions := a3\<rparr>) = settleInv w"
  "settleInv (w\<lparr>captures := a6\<rparr>) = settleInv w"
  "settleInv (w\<lparr>closedPages := a7\<rparr>) = settleInv w"
  "settleInv (w\<lparr>closedContexts := a8\<rparr>) = settleInv w"
  "settleInv (w\<lparr>closedBrowsers := a9\<rparr>) = settleInv w"
  "settleInv (w\<lparr>nextRes := a10\<rparr>) = settleInv w"
  by (rule settleInv_cong; simp add: consoleLog_def pageCall_def)+

lemma settleInv_updConn:
  "(\<And>k. scrollSettleTimer (f k) = scrollSettleTimer k) \<Longrightarrow>
   settleInv (updConn c f w) = settleInv w"
  by (rule settleInv_cong) (simp_all add: updConn_def)

lemma settleInv_setTimeout:
  "\<not> isSettle a \<Longrightarrow> settleInv (setTimeout c a d w) = settleInv w"
  by (auto simp: settleInv_def setTimeout_def nth_append less_Suc_eq)




lemma settleInv_sendFrame [simp]:
  "settleInv (sendFrame_finally c pg w) = settleInv w"
  "settleInv (sendFrame c pg f w) = settleInv w"
  "settleInv (sendFrame_catch c msg w) = settleInv w"
  "settleInv (sendFrame_resume md5 c pg f out w) = settleInv w"
  by (simp_all add: sendFrame_finally_def sendFrame_def sendFrame_catch_def sendFrame_resume_def
        Let_def settleInv_updConn settleInv_setTimeout split: outcome.splits)

lemma settleInv_schedule [simp]:
  "settleInv (scheduleEventFrames c pg d w) = settleInv w"
  "settleInv (scheduleNavFrames c pg f w) = settleInv w"
  by (simp_all add: scheduleEventFrames_def scheduleNavFrames_def settleInv_setTimeout)


lemma pendingSettle_setTimeout:
  "pendingSettle c' (setTimeout c a d w)
     = (if c' = c \<and> isSettle a
        then pendingSettle c' w @ [\<lparr> t_owner = c, t_created = now w, t_due = now w + d,
                                     t_action = a, t_status = Pending \<rparr>]
        else pendingSettle c' w)"
  by (simp add: pendingSettle_def setTimeout_def)

lemma pendingSettle_updConn [simp]: "pendingSettle c' (updConn c f w) = pendingSettle c' w"
  by (simp add: pendingSettle_def updConn_def)










lemma settleInv_removeSession [simp]: "settleInv (removeSession k w) = settleInv w"
  by (simp add: removeSession_def split: option.splits)

lemma settleInv_timerCallback [simp]: "settleInv (timerCallback c a w) = settleInv w"
  by (cases a) (simp_all add: timerCallback_def settleInv_updConn)

lemma settleInv_critical [simp]: "settleInv (critical c w) = settleInv w"
  by (simp add: critical_def Let_def settleInv_updConn)







lemma settleInv_sweep [simp]: "settleInv (sweep ce w) = settleInv w"
  by (rule settleInv_cong) (simp_all add: sweep_def consoleLog_def)







lemma pendingSettle_captures [simp]: "pendingSettle c (w\<lparr>captures := x\<rparr>) = pendingSettle c w"
  by (simp add: pendingSettle_def)

lemma pendingSettle_sendFrame [simp]:
  "pendingSettle c' (sendFrame_finally c pg w) = pendingSettle c' w"
  "pendingSettle c' (sendFrame c pg f w) = pendingSettle c' w"
  by (simp_all add: sendFrame_finally_def sendFrame_def Let_def pendingSettle_setTimeout)

lemma handleInv_cong:
  "timers w' = timers w \<Longrightarrow>
   (\<And>c. scrollSettleTimer (conns w' c) = scrollSettleTimer (conns w c)) \<Longrightarrow>
   handleInv w' = handleInv w"
  by (simp add: handleInv_def)

lemma handleInv_prims [simp]:
  "handleInv (consoleLog s w) = handleInv w"
  "handleInv (pageCall pg pc w) = handleInv w"
  "handleInv (w\<lparr>now := a1\<rparr>) = handleInv w"
  "handleInv (w\<lparr>userBrowsers := a2\<rparr>) = handleInv w"
  "handleInv (w\<lparr>activeSessions := a3\<rparr>) = handleInv w"
  "handleInv (w\<lparr>nextConn := a4\<rparr>) = handleInv w"
  "handleInv (w\<lparr>captures := a6\<rparr>) = handleInv w"
  "handleInv (w\<lparr>closedPages := a7\<rparr>) = handleInv w"
  "handleInv (w\<lparr>closedContexts := a8\<rparr>) = handleInv w"
  "handleInv (w\<lparr>closedBrowsers := a9\<rparr>) = handleInv w"
  "handleInv (w\<lparr>nextRes := a10\<rparr>) = handleInv w"
  by (rule handleInv_cong; simp add: consoleLog_def pageCall_def)+

lemma handleInv_updConn:
  "(\<And>k. scrollSettleTimer (f k) = scrollSettleTimer k) \<Longrightarrow>
   handleInv (updConn c f w) = handleInv w"
  by (rule handleInv_cong) (simp_all add: updConn_def)







lemma handleInv_catch [simp]: "handleInv (sendFrame_catch c msg w) = handleInv w"
  by (simp add: sendFrame_catch_def Let_def handleInv_updConn)







lemma handleInv_removeSession [simp]: "handleInv (removeSession k w) = handleInv w"
  by (simp add: removeSession_def split: option.splits)


lemma handleInv_critical [simp]: "handleInv (critical c w) = handleInv w"
  by (simp add: critical_def Let_def handleInv_updConn)







lemma handleInv_sweep [simp]: "handleInv (sweep ce w) = handleInv w"
  by (rule handleInv_cong) (simp_all add: sweep_def consoleLog_def)





lemma pendingSettle_prims [simp]:
  "pendingSettle c (consoleLog s w) = pendingSettle c w"
  "pendingSettle c (pageCall pg pc w) = pendingSettle c w"
  "pendingSettle c (w\<lparr>now := a1\<rparr>) = pendingSettle c w"
  "pendingSettle c (w\<lparr>userBrowsers := a2\<rparr>) = pendingSettle c w"
  "pendingSettle c (w\<lparr>activeSessions := a3\<rparr>) = pendingSettle c w"
  "pendingSettle c (w\<lparr>nextConn := a4\<rparr>) = pendingSettle c w"
  "pendingSettle c (w\<lparr>conns := a5\<rparr>) = pendingSettle c w"
  "pendingSettle c (w\<lparr>closedPages := a7\<rparr>) = pendingSettle c w"
  "pendingSettle c (w\<lparr>closedContexts := a8\<rparr>) = pendingSettle c w"
  "pendingSettle c (w\<lparr>closedBrowsers := a9\<rparr>) = pendingSettle c w"
  "pendingSettle c (w\<lparr>nextRes := a10\<rparr>) = pendingSettle c w"
  by (simp_all add: pendingSettle_def consoleLog_def pageCall_def)

lemma pendingSettle_other_timer:
  "\<not> isSettle a \<Longrightarrow> pendingSettle c' (setTimeout c a d w) = pendingSettle c' w"
  by (simp add: pendingSettle_setTimeout)

lemma pendingSettle_catch [simp]: "pendingSettle c' (sendFrame_catch c msg w) = pendingSettle c' w"
  by (simp add: sendFrame_catch_def Let_def)

lemma pendingSettle_resume [simp]:
  "pendingSettle c' (sendFrame_resume md5 c pg f out w) = pendingSettle c' w"
  by (cases out) (simp_all add: sendFrame_resume_def Let_def)

lemma pendingSettle_schedule [simp]:
  "pendingSettle c' (scheduleEventFrames c pg d w) = pendingSettle c' w"
  "pendingSettle c' (scheduleNavFrames c pg f w) = pendingSettle c' w"
  by (simp_all add: scheduleEventFrames_def scheduleNavFrames_def pendingSettle_setTimeout)

lemma pendingSettle_removeSession [simp]:
  "pendingSettle c (removeSession k w) = pendingSettle c w"
  by (simp add: removeSession_def pendingSettle_def split: option.splits)

lemma pendingSettle_timerCallback [simp]:
  "pendingSettle c' (timerCallback c a w) = pendingSettle c' w"
  by (cases a) (simp_all add: timerCallback_def)

lemma pendingSettle_critical [simp]: "pendingSettle c' (critical c w) = pendingSettle c' w"
  by (simp add: critical_def Let_def)

lemma pendingSettle_attach [simp]: "pendingSettle c' (attach c pg w) = pendingSettle c' w"
  by (simp add: attach_def Let_def pendingSettle_setTimeout)

lemma pendingSettle_acquireBrowser [simp]:
  "pendingSettle c (snd (acquireBrowser u rq w)) = pendingSettle c w"
  by (simp add: pendingSettle_def)

lemma pendingSettle_navigate [simp]:
  "pendingSettle c (snd (navigate pg url rq w)) = pendingSettle c w"
  by (simp add: pendingSettle_def)

lemma pendingSettle_setupSession [simp]:
  "pendingSettle c' (setupSession c u key url rq w) = pendingSettle c' w"
proof -
  obtain b w1 where ab: "acquireBrowser u rq w = (b, w1)" by (cases "acquireBrowser u rq w")
  have w1: "pendingSettle c' w1 = pendingSettle c' w"
    using pendingSettle_acquireBrowser[of c' u rq w] ab by simp
  let ?w3 = "w1\<lparr>nextRes := Suc (Suc (nextRes w1))\<rparr>"
  obtain ok w4 where nav: "navigate (Suc (nextRes w1)) url rq ?w3 = (ok, w4)"
    by (cases "navigate (Suc (nextRes w1)) url rq ?w3")
  have w4: "pendingSettle c' w4 = pendingSettle c' w1"
    using pendingSettle_navigate[of c' "Suc (nextRes w1)" url rq ?w3] nav by simp
  show ?thesis using w1 w4
    by (simp add: setupSession_def registerSession_def ab nav Let_def
          split: option.splits bool.splits)
qed

lemma pendingSettle_createSession [simp]:
  "pendingSettle c' (createSession c u key url rq w) = pendingSettle c' w"
  by (simp add: createSession_def clientMayLeave_def)

lemma pendingSettle_onConnection [simp]:
  "pendingSettle c (onConnection rq w) = pendingSettle c w"
  by (simp add: onConnection_def Let_def split: option.splits)

lemma pendingSettle_sweep [simp]: "pendingSettle c (sweep ce w) = pendingSettle c w"
  by (simp add: pendingSettle_def sweep_def consoleLog_def)















































section \<open>Concrete runs\<close>

subsection \<open>Reconnection within the grace period\<close>

text \<open>
  C1. A connection closes, which schedules the removal of its Session after 30000 ms, and a
  new connection resolves the same key before that timer fires. The claim is that the
  removal is then a no-op. In the code the timer callback (lines 220-228) only tests
  \<open>activeSessions.has(sKey)\<close>: in the run below the second connection reuses the Session
  (same page, no new resource, its socket open), the timer of the first connection is still
  pending, and when it fires the reused Session is removed from the registry and its
  context is closed, under the connection that is using it.
\<close>

theorem removal_fires_on_reused_session:
  "map_of (activeSessions (run digest reconnect_run (init_world 1000000))) ''u1_s1''
      = Some \<lparr> pageOf = 2, contextOf = 1, browserOf = 0 \<rparr>
   \<and> boundPage (conns (run digest reconnect_run (init_world 1000000)) 1) = Some 2
   \<and> readyState (conns (run digest reconnect_run (init_world 1000000)) 1) = OPEN
   \<and> nextRes (run digest reconnect_run (init_world 1000000)) = 3
   \<and> timers (run digest reconnect_run (init_world 1000000)) ! 2
      = \<lparr> t_owner = 0, t_created = 1001000, t_due = 1031000,
          t_action = RemoveSession ''u1_s1'', t_status = Pending \<rparr>
   \<and> map_of (activeSessions (run digest (reconnect_run @ [Fire 2]) (init_world 1000000)))
        ''u1_s1'' = None
   \<and> closedContexts (run digest (reconnect_run @ [Fire 2]) (init_world 1000000)) = [1]
   \<and> readyState (conns (run digest (reconnect_run @ [Fire 2]) (init_world 1000000)) 1) = OPEN"
  by (simp add: reconnect_run_def input_defs model_defs Let_def)

subsection \<open>Single flight\<close>

text \<open>
  C3. At most one capture is in flight per Session. The \<open>finally\<close> block of \<open>sendFrame\<close>
  also runs when the call returns at line 84 because a capture is in flight, and it sets
  \<open>isCapturing\<close> to false while that capture is still running. In the run below the replay
  scheduled by that same block then starts a second screenshot of the same page, on the same
  connection, while the first one has not settled.
\<close>

theorem two_captures_in_flight:
  "captures (run digest (deferred_run @ [Advance 50, Fire 4]) (init_world 1000000))
     = [\<lparr> cap_conn = 0, cap_page = 2, cap_force = True, cap_running = True \<rparr>,
        \<lparr> cap_conn = 0, cap_page = 2, cap_force = False, cap_running = True \<rparr>]"
  by (simp add: deferred_run_def input_defs model_defs Let_def)

text \<open>
  C4. A capture requested while another one is executing sets the pending flag, and the
  flag is cleared and the replay scheduled when the capture in flight completes. In the
  code both happen at once, in the \<open>finally\<close> of the deferred call itself: after the request
  of the run below the first screenshot is still running, the pending flag is already
  cleared, \<open>isCapturing\<close> is already false and the replay is already scheduled, 50 ms after
  the request; when the first screenshot completes, no timer is added.
\<close>

theorem replay_scheduled_before_completion:
  "cap_running (captures (run digest deferred_run (init_world 1000000)) ! 0)
   \<and> \<not> pendingCapture (conns (run digest deferred_run (init_world 1000000)) 0)
   \<and> \<not> isCapturing (conns (run digest deferred_run (init_world 1000000)) 0)
   \<and> length (timers (run digest deferred_run (init_world 1000000))) = 5
   \<and> timers (run digest deferred_run (init_world 1000000)) ! 4
      = \<lparr> t_owner = 0, t_created = 1000150, t_due = 1000200, t_action = Replay 2,
          t_status = Pending \<rparr>
   \<and> length (timers (run digest (deferred_run @ [Advance 10, CaptureDone 0 (Shot frameA)])
        (init_world 1000000))) = 5
   \<and> sent (conns (run digest (deferred_run @ [Advance 10, CaptureDone 0 (Shot frameA)])
        (init_world 1000000)) 0) = [frameA]"
  by (simp add: deferred_run_def input_defs model_defs Let_def)

subsection \<open>Capture failures\<close>

text \<open>
  C7. When a capture fails with a target-closed error, the Session is removed from the
  registry and its context is closed. The \<open>catch\<close> block (lines 107-110) only deletes the
  registry entry: in the run below the Session is gone after the failure and no context has
  been closed; the removal timer of the later disconnection finds no entry and closes
  nothing either, whereas on its own path (lines 222-226) it closes the context.
\<close>

theorem target_closed_leaves_context_open:
  "activeSessions (run digest [Connect request_u1_s1, Advance 100, Fire 0] (init_world 1000000))
      = [(''u1_s1'', \<lparr> pageOf = 2, contextOf = 1, browserOf = 0 \<rparr>)]
   \<and> activeSessions (run digest target_closed_run (init_world 1000000)) = []
   \<and> closedContexts (run digest target_closed_run (init_world 1000000)) = []
   \<and> closedContexts (run digest (target_closed_run @ [Close 0, Advance 30000, Fire 2])
        (init_world 1000000)) = []
   \<and> t_status (timers (run digest (target_closed_run @ [Close 0, Advance 30000, Fire 2])
        (init_world 1000000)) ! 2) = Fired"
  by (simp add: target_closed_run_def input_defs model_defs Let_def)


subsection \<open>The sweep\<close>

lemma sweep_world_facts:
  "userBrowsers (run digest sweep_run (init_world 1000000)) = [(''u1'', 0), (''u2'', 3)]"
  "activeSessions (run digest sweep_run (init_world 1000000))
     = [(''u1_s1'', \<lparr> pageOf = 2, contextOf = 1, browserOf = 0 \<rparr>)]"
  "closedBrowsers (run digest sweep_run (init_world 1000000)) = []"
  "t_status (timers (run digest sweep_run (init_world 1000000)) ! 4) = Pending"
  "t_action (timers (run digest sweep_run (init_world 1000000)) ! 4) = RemoveSession ''u1_s1''"
  by (simp_all add: sweep_run_def request_u2_s2_def input_defs model_defs Let_def)

theorem sweep_closes_exactly_unreferenced_witness:
  "distinct (map fst (userBrowsers (run digest sweep_run (init_world 1000000))))
   \<and> userBrowsers (run digest sweep_run (init_world 1000000)) = [(''u1'', 0), (''u2'', 3)]
   \<and> t_status (timers (run digest sweep_run (init_world 1000000)) ! 4) = Pending
   \<and> t_action (timers (run digest sweep_run (init_world 1000000)) ! 4) = RemoveSession ''u1_s1''
   \<and> userBrowsers (sweep close_fails (run digest sweep_run (init_world 1000000))) = [(''u1'', 0)]
   \<and> closedBrowsers (sweep close_fails (run digest sweep_run (init_world 1000000))) = [3]
   \<and> ''Error al cerrar browser de u2: boom''
        \<in> set (logs (sweep close_fails (run digest sweep_run (init_world 1000000))))"
proof -
  let ?w = "run digest sweep_run (init_world 1000000)"
  have d: "distinct (map fst (userBrowsers ?w))" by (simp add: sweep_world_facts)
  note T = sweep_closes_exactly_unreferenced[OF d, of close_fails]
  have su: "stillUsed ?w 0" "\<not> stillUsed ?w 3"
    by (simp_all add: stillUsed_def sweep_world_facts)
  have A: "userBrowsers (sweep close_fails ?w) = [(''u1'', 0)]"
    using T su by (simp add: sweep_world_facts)
  have B: "closedBrowsers (sweep close_fails ?w) = [3]"
    using T su by (simp add: sweep_world_facts)
  from T have "(''u2'', 3) \<in> set (userBrowsers ?w) \<and> \<not> stillUsed ?w 3 \<and> close_fails 3 = Some ''boom'' \<longrightarrow>
       ''Error al cerrar browser de '' @ ''u2'' @ '': '' @ ''boom'' \<in> set (logs (sweep close_fails ?w))"
    by blast
  then have C: "''Error al cerrar browser de u2: boom'' \<in> set (logs (sweep close_fails ?w))"
    using su by (simp add: sweep_world_facts close_fails_def)
  from d A B C show ?thesis by (simp add: sweep_world_facts)
qed

subsection \<open>Deduplication\<close>

text \<open>C2 as stated fails when the socket is not open: the client disconnects before
  the initial forced frame; the screenshot succeeds, the hash is stored, nothing is sent.\<close>

theorem forced_frame_not_sent_on_closed_socket:
  "cap_force (captures (run digest closed_socket_run (init_world 1000000)) ! 0)
   \<and> cap_running (captures (run digest closed_socket_run (init_world 1000000)) ! 0)
   \<and> lastScreenshotHash (conns (run digest closed_socket_run (init_world 1000000)) 0) = None
   \<and> sent (conns (run digest (closed_socket_run @ [CaptureDone 0 (Shot frameA)])
                   (init_world 1000000)) 0) = []
   \<and> lastScreenshotHash (conns (run digest (closed_socket_run @ [CaptureDone 0 (Shot frameA)])
                   (init_world 1000000)) 0) = Some (digest frameA)"
  by (simp add: closed_socket_run_def input_defs model_defs Let_def)

lemma first_frame_facts:
  "nextConn (run digest first_frame_run (init_world 1000000)) = 1"
  "lastScreenshotHash (conns (run digest first_frame_run (init_world 1000000)) 0) = None"
  "readyState (conns (run digest first_frame_run (init_world 1000000)) 0) = OPEN"
  "sent (conns (run digest first_frame_run (init_world 1000000)) 0) = []"
  by (simp_all add: first_frame_run_def input_defs model_defs Let_def)

lemma first_frame_noShot:
  "noShot digest 0 [Advance 1400, Fire 1]
     (sendFrame_resume digest 0 2 True (Shot frameA)
        (run digest first_frame_run (init_world 1000000)))"
  by (simp add: first_frame_run_def input_defs model_defs Let_def)

theorem dedup_rule_witness:
  "lastScreenshotHash (conns (run digest first_frame_run (init_world 1000000)) 0) = None
   \<and> readyState (conns (run digest first_frame_run (init_world 1000000)) 0) = OPEN
   \<and> sent (conns (sendFrame_resume digest 0 2 True (Shot frameA)
                    (run digest first_frame_run (init_world 1000000))) 0) = [frameA]
   \<and> lastScreenshotHash (conns (sendFrame_resume digest 0 2 True (Shot frameA)
                    (run digest first_frame_run (init_world 1000000))) 0) = Some (digest frameA)
   \<and> 0 < nextConn (run digest first_frame_run (init_world 1000000))
   \<and> noShot digest 0 [Advance 1400, Fire 1]
        (sendFrame_resume digest 0 2 True (Shot frameA)
           (run digest first_frame_run (init_world 1000000)))
   \<and> sent (conns (sendFrame_resume digest 0 2 False (Shot frameA)
        (run digest [Advance 1400, Fire 1]
           (sendFrame_resume digest 0 2 True (Shot frameA)
              (run digest first_frame_run (init_world 1000000))))) 0) = [frameA]
   \<and> sent (conns (sendFrame_resume digest 0 2 False (Shot frameA)
           (sendFrame_resume digest 0 2 True (Shot frameA)
              (run digest first_frame_run (init_world 1000000)))) 0) = [frameA]"
proof -
  let ?w = "run digest first_frame_run (init_world 1000000)"
  let ?w1 = "sendFrame_resume digest 0 2 True (Shot frameA) ?w"
  note T1 = dedup_rule[of True ?w 0 digest frameA 2 "[Advance 1400, Fire 1]" frameA 2]
  note T2 = dedup_rule[of False ?w1 0 digest frameA 2 "[]" frameA 2]
  have A: "sent (conns ?w1 0) = [frameA]" "lastScreenshotHash (conns ?w1 0) = Some (digest frameA)"
    using T1 by (simp_all add: first_frame_facts)
  have B: "sent (conns (sendFrame_resume digest 0 2 False (Shot frameA)
        (run digest [Advance 1400, Fire 1] ?w1)) 0) = [frameA]"
    using T1 A first_frame_noShot by (simp add: first_frame_facts)
  have C: "sent (conns (sendFrame_resume digest 0 2 False (Shot frameA) ?w1) 0) = [frameA]"
    using T2 A by simp
  from A B C first_frame_noShot show ?thesis by (simp add: first_frame_facts)
qed

subsection \<open>A new connection\<close>

text \<open>C10 as stated fails: the first non-forced capture of a connection comes after the
  forced initial frame; when the page has not changed it is discarded.\<close>

theorem first_non_forced_capture_deduplicated:
  "captures (run digest repeated_frame_run (init_world 1000000))
     = [\<lparr> cap_conn = 0, cap_page = 2, cap_force = True, cap_running = False \<rparr>,
        \<lparr> cap_conn = 0, cap_page = 2, cap_force = False, cap_running = True \<rparr>]
   \<and> sent (conns (run digest repeated_frame_run (init_world 1000000)) 0) = [frameA]
   \<and> readyState (conns (run digest repeated_frame_run (init_world 1000000)) 0) = OPEN
   \<and> sent (conns (run digest (repeated_frame_run @ [CaptureDone 1 (Shot frameA)])
                   (init_world 1000000)) 0) = [frameA]"
  by (simp add: repeated_frame_run_def input_defs model_defs Let_def)

lemma early_click_facts:
  "noShot digest 0 early_click_run (onConnection request_u1_s1 (init_world 1000000))"
  "isShotFor 0 (CaptureDone 0 (Shot frameA))
     (run digest early_click_run (onConnection request_u1_s1 (init_world 1000000)))"
  "\<not> cap_force (captures
     (run digest early_click_run (onConnection request_u1_s1 (init_world 1000000))) ! 0)"
  "readyState (conns
     (run digest early_click_run (onConnection request_u1_s1 (init_world 1000000))) 0) = OPEN"
  by (simp_all add: early_click_run_def input_defs model_defs Let_def)

theorem first_capture_of_connection_passes_dedup_witness:
  "noShot digest 0 early_click_run (onConnection request_u1_s1 (init_world 1000000))
   \<and> isShotFor 0 (CaptureDone 0 (Shot frameA))
       (run digest early_click_run (onConnection request_u1_s1 (init_world 1000000)))
   \<and> \<not> cap_force (captures
       (run digest early_click_run (onConnection request_u1_s1 (init_world 1000000))) ! 0)
   \<and> sent (conns (step digest (CaptureDone 0 (Shot frameA))
       (run digest early_click_run (onConnection request_u1_s1 (init_world 1000000)))) 0)
       = [frameA]"
proof -
  have n: "nextConn (init_world 1000000) = 0" by (simp add: init_world_def)
  note T = first_capture_of_connection_passes_dedup
             [of request_u1_s1 "init_world 1000000" digest early_click_run 0 frameA]
  show ?thesis using T early_click_facts by (simp add: n)
qed

subsection \<open>Failure of the initial navigation\<close>

text \<open>C9 as stated fails when the fallback navigation throws too (line 291 is not
  guarded): the outer \<open>catch\<close> closes the socket and no Session is registered.\<close>

theorem fallback_failure_closes_connection:
  "\<not> goto_ok request_dead_page
   \<and> activeSessions (onConnection request_dead_page (init_world 1000000)) = []
   \<and> boundPage (conns (onConnection request_dead_page (init_world 1000000)) 0) = None
   \<and> readyState (conns (onConnection request_dead_page (init_world 1000000)) 0) = CLOSING
   \<and> timers (onConnection request_dead_page (init_world 1000000)) = []
   \<and> pageCalls (onConnection request_dead_page (init_world 1000000))
        = [(2, Goto ''https://example.test''), (2, Goto ''about:blank'')]"
  by (simp add: request_dead_page_def input_defs model_defs Let_def)

text \<open>The amended statement at three inputs: the fallback succeeds; it succeeds and the
  client has left meanwhile; it fails on a server whose registry holds a stale entry under
  the same key, which stays.\<close>

lemma stale_entry_facts:
  "activeSessions (run digest stale_entry_run (init_world 1000000))
     = [(''u1_s1'', \<lparr> pageOf = 2, contextOf = 1, browserOf = 0 \<rparr>)]"
  "closedPages (run digest stale_entry_run (init_world 1000000)) = [2]"
  "userBrowsers (run digest stale_entry_run (init_world 1000000)) = [(''u1'', 0)]"
  "nextConn (run digest stale_entry_run (init_world 1000000)) = 1"
  "now (run digest stale_entry_run (init_world 1000000)) = 1000000"
  "length (timers (run digest stale_entry_run (init_world 1000000))) = 2"
  by (simp_all add: stale_entry_run_def input_defs model_defs Let_def)

theorem navigation_failure_falls_back_witness:
  "\<not> goto_ok request_unreachable \<and> blank_ok request_unreachable
   \<and> \<not> client_gone request_unreachable
   \<and> activeSessions (init_world 1000000) = []
   \<and> (\<exists>s. map_of (activeSessions (onConnection request_unreachable (init_world 1000000)))
              ''u1_s1'' = Some s
         \<and> boundPage (conns (onConnection request_unreachable (init_world 1000000)) 0)
              = Some (pageOf s)
         \<and> readyState (conns (onConnection request_unreachable (init_world 1000000)) 0) = OPEN
         \<and> pageCalls (onConnection request_unreachable (init_world 1000000))
              = [(pageOf s, Goto ''https://example.test''), (pageOf s, Goto ''about:blank'')])
   \<and> \<not> goto_ok request_client_left \<and> blank_ok request_client_left
   \<and> client_gone request_client_left
   \<and> (\<exists>s. map_of (activeSessions (onConnection request_client_left (init_world 1000000)))
              ''u1_s1'' = Some s
         \<and> boundPage (conns (onConnection request_client_left (init_world 1000000)) 0)
              = Some (pageOf s)
         \<and> readyState (conns (onConnection request_client_left (init_world 1000000)) 0) = CLOSED)
   \<and> \<not> goto_ok request_dead_page \<and> \<not> blank_ok request_dead_page
   \<and> activeSessions (run digest stale_entry_run (init_world 1000000))
        = [(''u1_s1'', \<lparr> pageOf = 2, contextOf = 1, browserOf = 0 \<rparr>)]
   \<and> closedPages (run digest stale_entry_run (init_world 1000000)) = [2]
   \<and> activeSessions (onConnection request_dead_page
                        (run digest stale_entry_run (init_world 1000000)))
        = [(''u1_s1'', \<lparr> pageOf = 2, contextOf = 1, browserOf = 0 \<rparr>)]
   \<and> boundPage (conns (onConnection request_dead_page
                          (run digest stale_entry_run (init_world 1000000))) 1) = None
   \<and> readyState (conns (onConnection request_dead_page
                           (run digest stale_entry_run (init_world 1000000))) 1) = CLOSING
   \<and> length (timers (onConnection request_dead_page
                        (run digest stale_entry_run (init_world 1000000)))) = 2"
proof -
  let ?w = "init_world 1000000"
  let ?v = "run digest stale_entry_run (init_world 1000000)"
  note rq = request_unreachable_def request_client_left_def request_dead_page_def
            request_u1_s1_def
  have k: "\<And>t. sessionKeyOf request_unreachable t = ''u1_s1''"
          "\<And>t. sessionKeyOf request_client_left t = ''u1_s1''"
          "\<And>t. sessionKeyOf request_dead_page t = ''u1_s1''"
          "\<And>t. userIdOf request_dead_page t = ''u1''"
          "targetUrlOf request_unreachable = ''https://example.test''"
          "nextConn ?w = 0" "pageCalls ?w = []" "activeSessions ?w = []"
    by (simp_all add: rq init_world_def
          sessionKeyOf_def userIdOf_def sessionIdOf_def targetUrlOf_def orDefault_def)
  have f: "\<not> goto_ok request_unreachable" "blank_ok request_unreachable"
          "\<not> client_gone request_unreachable"
          "\<not> goto_ok request_client_left" "blank_ok request_client_left"
          "client_gone request_client_left"
          "\<not> goto_ok request_dead_page" "\<not> blank_ok request_dead_page"
          "\<not> client_gone request_dead_page"
    by (simp_all add: rq)
  have h1: "url_ok request_unreachable"
          "\<forall>s. map_of (activeSessions ?w) (sessionKeyOf request_unreachable (now ?w)) = Some s
               \<longrightarrow> pageOf s \<in> set (closedPages ?w)"
          "launch_ok request_unreachable
             \<or> map_of (userBrowsers ?w) (userIdOf request_unreachable (now ?w)) \<noteq> None"
          "newContext_ok request_unreachable" "newPage_ok request_unreachable"
          "viewport_ok request_unreachable"
          "\<not> (goto_ok request_unreachable \<and> title_ok request_unreachable)"
    by (simp_all add: rq init_world_def)
  have h2: "url_ok request_client_left"
          "\<forall>s. map_of (activeSessions ?w) (sessionKeyOf request_client_left (now ?w)) = Some s
               \<longrightarrow> pageOf s \<in> set (closedPages ?w)"
          "launch_ok request_client_left
             \<or> map_of (userBrowsers ?w) (userIdOf request_client_left (now ?w)) \<noteq> None"
          "newContext_ok request_client_left" "newPage_ok request_client_left"
          "viewport_ok request_client_left"
          "\<not> (goto_ok request_client_left \<and> title_ok request_client_left)"
    by (simp_all add: rq init_world_def)
  have h3: "url_ok request_dead_page"
          "\<forall>s. map_of (activeSessions ?v) (sessionKeyOf request_dead_page (now ?v)) = Some s
               \<longrightarrow> pageOf s \<in> set (closedPages ?v)"
          "launch_ok request_dead_page
             \<or> map_of (userBrowsers ?v) (userIdOf request_dead_page (now ?v)) \<noteq> None"
          "newContext_ok request_dead_page" "newPage_ok request_dead_page"
          "viewport_ok request_dead_page"
          "\<not> (goto_ok request_dead_page \<and> title_ok request_dead_page)"
    unfolding k stale_entry_facts by (simp_all add: rq)
  note t1 = navigation_failure_falls_back[OF h1, THEN conjunct1, unfolded k]
  note t2 = navigation_failure_falls_back[OF h2, THEN conjunct1, unfolded k]
  note t3 = navigation_failure_falls_back[OF h3, THEN conjunct2, THEN conjunct1,
                unfolded k stale_entry_facts(4)]
  from t1 f(2,3)
  have a: "\<exists>s. map_of (activeSessions (onConnection request_unreachable ?w)) ''u1_s1'' = Some s
         \<and> boundPage (conns (onConnection request_unreachable ?w) 0) = Some (pageOf s)
         \<and> readyState (conns (onConnection request_unreachable ?w) 0) = OPEN
         \<and> pageCalls (onConnection request_unreachable ?w)
              = [(pageOf s, Goto ''https://example.test''), (pageOf s, Goto ''about:blank'')]"
    by auto
  from t2 f(5,6)
  have b: "\<exists>s. map_of (activeSessions (onConnection request_client_left ?w)) ''u1_s1'' = Some s
         \<and> boundPage (conns (onConnection request_client_left ?w) 0) = Some (pageOf s)
         \<and> readyState (conns (onConnection request_client_left ?w) 0) = CLOSED"
    by auto
  from t3 f(8,9)
  have c: "activeSessions (onConnection request_dead_page ?v) = activeSessions ?v"
          "boundPage (conns (onConnection request_dead_page ?v) 1) = None"
          "readyState (conns (onConnection request_dead_page ?v) 1) = CLOSING"
          "timers (onConnection request_dead_page ?v) = timers ?v"
    by auto
  show ?thesis
    using a b c f k(8) stale_entry_facts(1,2,6) by simp
qed

subsection \<open>Live scroll frames\<close>

lemma scroll_burst_liveTimes:
  "liveTimes 0 (run digest scroll_burst_run (init_world 1000000)) = [1001000, 1001130]"
  by (simp add: scroll_burst_run_def liveTimes_def input_defs model_defs Let_def)

theorem live_scroll_frames_spaced_witness:
  "liveTimes 0 (run digest scroll_burst_run (init_world 1000000)) = [1001000, 1001130]
   \<and> (0::nat) < 1 \<and> 1 < length (liveTimes 0 (run digest scroll_burst_run (init_world 1000000)))
   \<and> liveTimes 0 (run digest scroll_burst_run (init_world 1000000)) ! 1
       - liveTimes 0 (run digest scroll_burst_run (init_world 1000000)) ! 0
       > MIN_SCROLL_FRAME_INTERVAL_MS * int (1 - 0)
   \<and> spaced (liveTimes 0 (run digest scroll_burst_run (init_world 1000000)))"
proof -
  note T = live_scroll_frames_spaced[of 0 2 "init_world 0" digest scroll_burst_run 1000000]
  have len: "(0::nat) < 1 \<and> 1 < length (liveTimes 0 (run digest scroll_burst_run (init_world 1000000)))"
    by (simp add: scroll_burst_liveTimes)
  from T have "(0::nat) < 1 \<and> 1 < length (liveTimes 0 (run digest scroll_burst_run (init_world 1000000)))
     \<longrightarrow> liveTimes 0 (run digest scroll_burst_run (init_world 1000000)) ! 1
       - liveTimes 0 (run digest scroll_burst_run (init_world 1000000)) ! 0
       > MIN_SCROLL_FRAME_INTERVAL_MS * int (1 - 0)"
    by blast
  with len T scroll_burst_liveTimes show ?thesis by blast
qed

subsection \<open>The settle timer\<close>







end
